theory Spec2Isabelle
  imports Complex_Main
begin

section \<open>Snake: the simulation core of main.js\<close>

text \<open>
  The game keeps its state in module-level variables and is driven by a timer and by
  input handlers. The model below keeps one record for those variables, passes it
  explicitly through every function, and follows the source function by function.
  Canvas drawing, the score text and local storage are left out; the overlay and its
  panel text are kept because the pause and game-over paths write them.
\<close>

subsection \<open>Constants and data\<close>

text \<open>A grid position or a direction: the object literal with fields x and y.\<close>

record pos =
  x :: int
  y :: int

definition GRID_SIZE :: int where
  "GRID_SIZE = 20"

text \<open>One entry of the DIFFICULTIES table.\<close>

record preset =
  label :: string
  initialSpeedMs :: int
  speedupFoodInterval :: int
  speedupFactor :: real
  minTickMs :: int

text \<open>
  The numbers of the program are double-precision floats. The model keeps integers as
  they are (every integer below \<open>2 ^ 53\<close> in size is a double) and rounds where the
  source can leave them: a decimal literal and a product are rounded to the nearest
  double, ties to the even mantissa. \<open>toDouble\<close> is that rounding on the normal range
  (no overflow to infinity, no subnormal result).
\<close>

definition roundHalfEven :: "real \<Rightarrow> int" where
  "roundHalfEven r =
     (let n = \<lfloor>r\<rfloor>; d = r - of_int n
      in if d < 1 / 2 then n else if 1 / 2 < d then n + 1 else if even n then n else n + 1)"

definition toDouble :: "real \<Rightarrow> real" where
  "toDouble v =
     (if v = 0 then 0
      else (let e = \<lfloor>log 2 \<bar>v\<bar>\<rfloor> - 52
            in of_int (roundHalfEven (v / 2 powi e)) * 2 powi e))"

text \<open>What a numeric variable can hold: an integer, the not-a-number value, or undefined.\<close>

datatype jsnum = Number int | NaN | Undefined

text \<open>
  What a lookup in the table can give besides undefined: one of its own four presets, or
  a member that every object inherits (a function, or the prototype object), which has
  none of the properties of a preset.
\<close>

datatype entry = Own preset | Inherited

definition inheritedNames :: "string list" where
  "inheritedNames =
     [''constructor'', ''hasOwnProperty'', ''isPrototypeOf'', ''propertyIsEnumerable'',
      ''toLocaleString'', ''toString'', ''valueOf'', ''__proto__'', ''__defineGetter__'',
      ''__defineSetter__'', ''__lookupGetter__'', ''__lookupSetter__'']"

text \<open>
  The table itself, looked up by key: None is the undefined value. The factors are the
  doubles that the decimal literals denote.
\<close>

definition DIFFICULTIES :: "string \<Rightarrow> entry option" where
  "DIFFICULTIES key =
     (if key = ''easy'' then
        Some (Own \<lparr>label = ''Easy'', initialSpeedMs = 200, speedupFoodInterval = 5,
                   speedupFactor = toDouble (94 / 100), minTickMs = 100\<rparr>)
      else if key = ''normal'' then
        Some (Own \<lparr>label = ''Normal'', initialSpeedMs = 160, speedupFoodInterval = 4,
                   speedupFactor = toDouble (92 / 100), minTickMs = 75\<rparr>)
      else if key = ''hard'' then
        Some (Own \<lparr>label = ''Hard'', initialSpeedMs = 120, speedupFoodInterval = 3,
                   speedupFactor = toDouble (90 / 100), minTickMs = 60\<rparr>)
      else if key = ''insane'' then
        Some (Own \<lparr>label = ''Insane'', initialSpeedMs = 90, speedupFoodInterval = 2,
                   speedupFactor = toDouble (88 / 100), minTickMs = 45\<rparr>)
      else if key \<in> set inheritedNames then Some Inherited
      else None)"

text \<open>
  The module variables, then what the host holds for the program: the table of armed
  interval timers (handle and period), the number of handles issued so far, the number
  of Math.random calls made so far, and the overlay with its panel text.
  A timer handle is a positive integer in the browser, hence always truthy; \<open>Some h\<close>
  is such a handle and \<open>None\<close> is null or undefined.
\<close>

record state =
  difficultyKey :: string
  difficulty :: entry
  snake :: "pos list"
  directionQueue :: "pos list"
  food :: pos
  score :: int
  best :: int
  tickMs :: jsnum
  loopId :: "nat option"
  isPaused :: bool
  isGameOver :: bool
  timers :: "(nat \<times> jsnum) list"
  timerCount :: nat
  randomCalls :: nat
  overlayHidden :: bool
  stateTitle :: string
  stateSubtitle :: string

datatype error = TypeError

subsection \<open>Utilities\<close>

text \<open>
  randomInt applied to one draw \<open>u\<close> of Math.random. The draws are a parameter of the
  model: a sequence \<open>rnd\<close> of reals, of which draw number \<open>k\<close> is \<open>rnd k\<close>.
\<close>

definition randomInt :: "real \<Rightarrow> int \<Rightarrow> int \<Rightarrow> int" where
  "randomInt u min' maxExclusive = \<lfloor>u * of_int (maxExclusive - min')\<rfloor> + min'"

definition positionsEqual :: "pos \<Rightarrow> pos \<Rightarrow> bool" where
  "positionsEqual a b = (x a = x b \<and> y a = y b)"

text \<open>
  The rejection loop. It has no bound in the source, so a run that never finds a free
  cell is the value None. The result carries the number of draws consumed so far.
\<close>

partial_function (option) getRandomEmptyCell ::
  "(nat \<Rightarrow> real) \<Rightarrow> nat \<Rightarrow> pos list \<Rightarrow> (pos \<times> nat) option" where
  "getRandomEmptyCell rnd k exclusions =
     (let p = \<lparr>x = randomInt (rnd k) 0 GRID_SIZE, y = randomInt (rnd (Suc k)) 0 GRID_SIZE\<rparr>
      in if \<not> list_ex (\<lambda>q. positionsEqual q p) exclusions then Some (p, k + 2)
         else getRandomEmptyCell rnd (k + 2) exclusions)"

text \<open>
  Every entry of the table, own or inherited, is truthy; only the undefined value makes
  the key fall back to normal.
\<close>

definition setDifficultyFromKey :: "string \<Rightarrow> state \<Rightarrow> state" where
  "setDifficultyFromKey key s =
     (let key' = (if DIFFICULTIES key = None then ''normal'' else key)
      in case DIFFICULTIES key' of
           Some d \<Rightarrow> s\<lparr>difficultyKey := key', difficulty := d\<rparr>
         | None \<Rightarrow> s\<lparr>difficultyKey := key'\<rparr>)"

subsection \<open>The clock\<close>

definition clearInterval :: "nat \<Rightarrow> state \<Rightarrow> state" where
  "clearInterval h s = s\<lparr>timers := filter (\<lambda>t. fst t \<noteq> h) (timers s)\<rparr>"

definition setInterval :: "jsnum \<Rightarrow> state \<Rightarrow> nat \<times> state" where
  "setInterval ms s =
     (timerCount s, s\<lparr>timers := timers s @ [(timerCount s, ms)], timerCount := Suc (timerCount s)\<rparr>)"

definition startLoop :: "state \<Rightarrow> state" where
  "startLoop s =
     (let s1 = (case loopId s of Some h \<Rightarrow> clearInterval h s | None \<Rightarrow> s);
          (h', s2) = setInterval (tickMs s1) s1
      in s2\<lparr>loopId := Some h'\<rparr>)"

definition stopLoop :: "state \<Rightarrow> state" where
  "stopLoop s =
     (case loopId s of
        Some h \<Rightarrow> (clearInterval h s)\<lparr>loopId := None\<rparr>
      | None \<Rightarrow> s)"

subsection \<open>Overlay and panel\<close>

definition updatePanel :: "string \<Rightarrow> string \<Rightarrow> state \<Rightarrow> state" where
  "updatePanel title subtitle s = s\<lparr>stateTitle := title, stateSubtitle := subtitle\<rparr>"

definition showOverlay :: "string \<Rightarrow> string \<Rightarrow> state \<Rightarrow> state" where
  "showOverlay title subtitle s = (updatePanel title subtitle s)\<lparr>overlayHidden := False\<rparr>"

definition hideOverlay :: "state \<Rightarrow> state" where
  "hideOverlay s = s\<lparr>overlayHidden := True\<rparr>"

subsection \<open>Score and speed\<close>

definition updateScore :: "int \<Rightarrow> state \<Rightarrow> state" where
  "updateScore delta s =
     (let s1 = s\<lparr>score := score s + delta\<rparr>
      in if score s1 > best s1 then s1\<lparr>best := score s1\<rparr> else s1)"

text \<open>
  The arithmetic of maybeSpeedUp on these values: the rounded-down product with a number,
  Math.max with a number, and strict inequality. An operand that is not a number makes
  the product, and then the maximum, not-a-number, which is strictly unequal to
  everything.
\<close>

fun floorTimes :: "jsnum \<Rightarrow> real \<Rightarrow> jsnum" where
  "floorTimes (Number t) f = Number \<lfloor>toDouble (of_int t * f)\<rfloor>"
| "floorTimes NaN f = NaN"
| "floorTimes Undefined f = NaN"

fun mathMax :: "int \<Rightarrow> jsnum \<Rightarrow> jsnum" where
  "mathMax m (Number n) = Number (max m n)"
| "mathMax m NaN = NaN"
| "mathMax m Undefined = NaN"

fun strictNe :: "jsnum \<Rightarrow> jsnum \<Rightarrow> bool" where
  "strictNe (Number a) (Number b) = (a \<noteq> b)"
| "strictNe Undefined Undefined = False"
| "strictNe NaN b = True"
| "strictNe a NaN = True"
| "strictNe (Number a) Undefined = True"
| "strictNe Undefined (Number b) = True"

text \<open>
  With an inherited member for difficulty the food interval is undefined, the remainder
  is not-a-number and the test fails. With a preset the remainder is taken only after
  the test \<open>foodsEaten > 0\<close>, on a positive left operand, where it is zero in the
  source exactly when \<open>mod\<close> is (a zero interval gives not-a-number there and the
  operand here).
\<close>

definition maybeSpeedUp :: "state \<Rightarrow> state" where
  "maybeSpeedUp s =
     (let foodsEaten = score s
      in case difficulty s of
           Inherited \<Rightarrow> s
         | Own d \<Rightarrow>
             if foodsEaten > 0 \<and> foodsEaten mod speedupFoodInterval d = 0 then
               (let newTick = mathMax (minTickMs d) (floorTimes (tickMs s) (speedupFactor d))
                in if strictNe newTick (tickMs s) then startLoop (s\<lparr>tickMs := newTick\<rparr>) else s)
             else s)"

subsection \<open>Reset\<close>

text \<open>Reading initialSpeedMs off the value of difficulty.\<close>

fun initialSpeedOf :: "entry \<Rightarrow> jsnum" where
  "initialSpeedOf (Own d) = Number (initialSpeedMs d)"
| "initialSpeedOf Inherited = Undefined"

text \<open>The result is None when the food placement never returns.\<close>

definition resetGame :: "(nat \<Rightarrow> real) \<Rightarrow> state \<Rightarrow> state option" where
  "resetGame rnd s =
     (let start = \<lparr>x = GRID_SIZE div 2, y = GRID_SIZE div 2\<rparr>;
          s1 = s\<lparr>snake := [start, \<lparr>x = x start - 1, y = y start\<rparr>, \<lparr>x = x start - 2, y = y start\<rparr>],
                 directionQueue := [\<lparr>x = 1, y = 0\<rparr>]\<rparr>
      in case getRandomEmptyCell rnd (randomCalls s1) (snake s1) of
           None \<Rightarrow> None
         | Some (cell, k) \<Rightarrow>
             (let s2 = s1\<lparr>food := cell, randomCalls := k\<rparr>;
                  s3 = s2\<lparr>score := 0\<rparr>;
                  s4 = s3\<lparr>tickMs := initialSpeedOf (difficulty s3)\<rparr>;
                  s5 = s4\<lparr>isPaused := False\<rparr>;
                  s6 = s5\<lparr>isGameOver := False\<rparr>
              in Some (updatePanel ''Paused'' ''Press Space or Tap to resume''
                         (hideOverlay (startLoop (updateScore 0 s6))))))"

subsection \<open>Directions\<close>

definition keyToDir :: "string \<Rightarrow> pos option" where
  "keyToDir key =
     (if key = ''arrowup'' \<or> key = ''w'' then Some \<lparr>x = 0, y = - 1\<rparr>
      else if key = ''arrowdown'' \<or> key = ''s'' then Some \<lparr>x = 0, y = 1\<rparr>
      else if key = ''arrowleft'' \<or> key = ''a'' then Some \<lparr>x = - 1, y = 0\<rparr>
      else if key = ''arrowright'' \<or> key = ''d'' then Some \<lparr>x = 1, y = 0\<rparr>
      else None)"

definition dirStringToVector :: "string \<Rightarrow> pos" where
  "dirStringToVector str =
     (if str = ''up'' then \<lparr>x = 0, y = - 1\<rparr>
      else if str = ''down'' then \<lparr>x = 0, y = 1\<rparr>
      else if str = ''left'' then \<lparr>x = - 1, y = 0\<rparr>
      else if str = ''right'' then \<lparr>x = 1, y = 0\<rparr>
      else \<lparr>x = 0, y = 0\<rparr>)"

text \<open>
  The last element of an empty queue is undefined, which is falsy; an object is truthy.
\<close>

definition queueDirection :: "pos \<Rightarrow> state \<Rightarrow> state" where
  "queueDirection next s =
     (if directionQueue s = [] then s\<lparr>directionQueue := directionQueue s @ [next]\<rparr>
      else
        (let lastQueued = last (directionQueue s)
         in if x lastQueued + x next = 0 \<and> y lastQueued + y next = 0 then s
            else s\<lparr>directionQueue := directionQueue s @ [next]\<rparr>))"

subsection \<open>Pause, resume, restart\<close>

definition togglePause :: "state \<Rightarrow> state" where
  "togglePause s =
     (if isGameOver s then s
      else
        (let s1 = s\<lparr>isPaused := \<not> isPaused s\<rparr>
         in if isPaused s1 then showOverlay ''Paused'' ''Press Space or Tap to resume'' (stopLoop s1)
            else startLoop (hideOverlay s1)))"

definition resume :: "state \<Rightarrow> state" where
  "resume s = (if \<not> isPaused s \<or> isGameOver s then s else togglePause s)"

definition restart :: "(nat \<Rightarrow> real) \<Rightarrow> state \<Rightarrow> state option" where
  "restart rnd s = resetGame rnd s"

subsection \<open>The tick\<close>

definition gameOver :: "state \<Rightarrow> state" where
  "gameOver s = showOverlay ''Game Over'' ''Press Restart or Enter'' (stopLoop (s\<lparr>isGameOver := True\<rparr>))"

text \<open>
  One firing of the timer. Reading a field of the undefined value (an empty queue, an
  empty snake) throws; a food placement that never returns gives None.
\<close>

definition tick :: "(nat \<Rightarrow> real) \<Rightarrow> state \<Rightarrow> (error + state) option" where
  "tick rnd s =
     (if isPaused s \<or> isGameOver s then Some (Inr s)
      else
        (case directionQueue s of
           [] \<Rightarrow> Some (Inl TypeError)
         | currentDir # rest \<Rightarrow>
             (let s1 = (if length (directionQueue s) > 1 then s\<lparr>directionQueue := rest\<rparr> else s)
              in case snake s1 of
                   [] \<Rightarrow> Some (Inl TypeError)
                 | head # _ \<Rightarrow>
                     (let nextHead = \<lparr>x = x head + x currentDir, y = y head + y currentDir\<rparr>
                      in if x nextHead < 0 \<or> y nextHead < 0 \<or>
                            x nextHead \<ge> GRID_SIZE \<or> y nextHead \<ge> GRID_SIZE
                         then Some (Inr (gameOver s1))
                         else if list_ex (\<lambda>c. positionsEqual nextHead c) (snake s1)
                         then Some (Inr (gameOver s1))
                         else
                           (let s2 = s1\<lparr>snake := nextHead # snake s1\<rparr>
                            in if positionsEqual nextHead (food s2) then
                                 (let s3 = maybeSpeedUp (updateScore 1 s2)
                                  in case getRandomEmptyCell rnd (randomCalls s3) (snake s3) of
                                       None \<Rightarrow> None
                                     | Some (cell, k) \<Rightarrow>
                                         Some (Inr (s3\<lparr>food := cell, randomCalls := k\<rparr>)))
                               else Some (Inr (s2\<lparr>snake := butlast (snake s2)\<rparr>)))))))"

subsection \<open>Start-up and input handlers\<close>

text \<open>
  The module variables as they stand when init runs: the declared initial values, and
  placeholders for the variables that are still undefined (resetGame assigns each of
  them before anything reads it).
\<close>

definition moduleState :: state where
  "moduleState =
     \<lparr>difficultyKey = ''normal'',
      difficulty = Own \<lparr>label = ''Normal'', initialSpeedMs = 160, speedupFoodInterval = 4,
                        speedupFactor = toDouble (92 / 100), minTickMs = 75\<rparr>,
      snake = [], directionQueue = [], food = \<lparr>x = 0, y = 0\<rparr>, score = 0, best = 0,
      tickMs = Undefined, loopId = None, isPaused = False, isGameOver = False,
      timers = [], timerCount = 0, randomCalls = 0,
      overlayHidden = False, stateTitle = [], stateSubtitle = []\<rparr>"

text \<open>
  init, with the two values read from local storage as arguments: the best score, and the
  stored key after the fallback to normal for an absent or empty item.
\<close>

definition init :: "(nat \<Rightarrow> real) \<Rightarrow> int \<Rightarrow> string \<Rightarrow> state option" where
  "init rnd bestFromStorage savedDiff =
     resetGame rnd (setDifficultyFromKey savedDiff (moduleState\<lparr>best := bestFromStorage\<rparr>))"

text \<open>
  The handlers bound by bindControls. A key arrives lower-cased; a D-pad button carries
  its data-dir attribute (None when absent); an overlay click says whether the overlay
  itself was the target.
\<close>

datatype event =
    PauseBtn
  | RestartBtn
  | ResumeBtn
  | PanelRestartBtn
  | KeyDown string
  | DpadClick "string option"
  | OverlayClick bool
  | DifficultyChange string

definition dispatch :: "(nat \<Rightarrow> real) \<Rightarrow> event \<Rightarrow> state \<Rightarrow> state option" where
  "dispatch rnd ev s =
     (case ev of
        PauseBtn \<Rightarrow> Some (togglePause s)
      | RestartBtn \<Rightarrow> restart rnd s
      | ResumeBtn \<Rightarrow> Some (resume s)
      | PanelRestartBtn \<Rightarrow> restart rnd s
      | KeyDown key \<Rightarrow>
          (if key = '' '' \<or> key = ''spacebar'' then Some (togglePause s)
           else case keyToDir key of
                  Some dir \<Rightarrow> Some (queueDirection dir s)
                | None \<Rightarrow> Some s)
      | DpadClick attr \<Rightarrow>
          (case attr of
             None \<Rightarrow> Some s
           | Some dir \<Rightarrow> if dir = [] then Some s else Some (queueDirection (dirStringToVector dir) s))
      | OverlayClick onOverlay \<Rightarrow>
          (if onOverlay \<and> isPaused s \<and> \<not> isGameOver s then Some (resume s) else Some s)
      | DifficultyChange newKey \<Rightarrow> resetGame rnd (setDifficultyFromKey newKey s))"

text \<open>
  The states the program can be in: after init, after a firing of an armed timer, after
  a handler.
\<close>

inductive reachable :: "(nat \<Rightarrow> real) \<Rightarrow> state \<Rightarrow> bool" for rnd :: "nat \<Rightarrow> real" where
  reach_init: "init rnd bestFromStorage savedDiff = Some s \<Longrightarrow> reachable rnd s"
| reach_tick: "reachable rnd s \<Longrightarrow> timers s \<noteq> [] \<Longrightarrow> tick rnd s = Some (Inr s') \<Longrightarrow> reachable rnd s'"
| reach_input: "reachable rnd s \<Longrightarrow> dispatch rnd ev s = Some s' \<Longrightarrow> reachable rnd s'"

text \<open>
  The inputs of the external interface: the D-pad buttons carry one of the four direction
  names (or none); every other event is as above. The states of a play with these inputs.
\<close>

fun specInput :: "event \<Rightarrow> bool" where
  "specInput (DpadClick (Some name)) =
     (name = [] \<or> name = ''up'' \<or> name = ''down'' \<or> name = ''left'' \<or> name = ''right'')"
| "specInput ev = True"

inductive inPlay :: "(nat \<Rightarrow> real) \<Rightarrow> state \<Rightarrow> bool" for rnd :: "nat \<Rightarrow> real" where
  play_init: "init rnd bestFromStorage savedDiff = Some s \<Longrightarrow> inPlay rnd s"
| play_tick: "inPlay rnd s \<Longrightarrow> timers s \<noteq> [] \<Longrightarrow> tick rnd s = Some (Inr s') \<Longrightarrow> inPlay rnd s'"
| play_input: "inPlay rnd s \<Longrightarrow> specInput ev \<Longrightarrow> dispatch rnd ev s = Some s' \<Longrightarrow> inPlay rnd s'"

subsection \<open>Notions used to state the properties\<close>

text \<open>
  Grid membership, and the two helpers the design names for the inlined tests of tick.
  They are not functions of the source; the lemmas on the outcomes of a tick tie them to
  the tests that tick makes in place.
\<close>

definition inGrid :: "pos \<Rightarrow> bool" where
  "inGrid c = (0 \<le> x c \<and> x c < GRID_SIZE \<and> 0 \<le> y c \<and> y c < GRID_SIZE)"

definition computeNextHead :: "pos list \<Rightarrow> pos \<Rightarrow> pos" where
  "computeNextHead body dir = \<lparr>x = x (hd body) + x dir, y = y (hd body) + y dir\<rparr>"

definition willCollide :: "pos \<Rightarrow> pos list \<Rightarrow> bool" where
  "willCollide nextHead body = (\<not> inGrid nextHead \<or> nextHead \<in> set body)"

text \<open>
  The queue as a tick leaves it, under the name the design gives it: the oldest entry
  goes unless it is the only one.
\<close>

definition consumeOne :: "pos list \<Rightarrow> pos list" where
  "consumeOne q = (if length q > 1 then tl q else q)"

text \<open>The cell that the rejection loop builds from draws \<open>k\<close> and \<open>k + 1\<close>.\<close>

definition sampleCell :: "(nat \<Rightarrow> real) \<Rightarrow> nat \<Rightarrow> pos" where
  "sampleCell rnd k = \<lparr>x = randomInt (rnd k) 0 GRID_SIZE, y = randomInt (rnd (Suc k)) 0 GRID_SIZE\<rparr>"

text \<open>Math.random returns a number in the half-open unit interval.\<close>

definition unitDraws :: "(nat \<Rightarrow> real) \<Rightarrow> bool" where
  "unitDraws rnd = (\<forall>k. 0 \<le> rnd k \<and> rnd k < 1)"

text \<open>Draws that give every cell of the grid at some pair from draw \<open>k\<close> on.\<close>

definition fairDraws :: "(nat \<Rightarrow> real) \<Rightarrow> nat \<Rightarrow> bool" where
  "fairDraws rnd k = (\<forall>c. inGrid c \<longrightarrow> (\<exists>n. sampleCell rnd (k + 2 * n) = c))"

text \<open>No two neighbours of the queue cancel each other.\<close>

fun noReversal :: "pos list \<Rightarrow> bool" where
  "noReversal (a # b # r) = (\<not> (x a + x b = 0 \<and> y a + y b = 0) \<and> noReversal (b # r))"
| "noReversal _ = True"

definition unitVector :: "pos \<Rightarrow> bool" where
  "unitVector d = (d = \<lparr>x = 1, y = 0\<rparr> \<or> d = \<lparr>x = - 1, y = 0\<rparr> \<or> d = \<lparr>x = 0, y = 1\<rparr> \<or> d = \<lparr>x = 0, y = - 1\<rparr>)"

text \<open>
  The clock is armed when the one timer of the host is the program's, at the current
  period; it is stopped when the program holds no handle and the host no timer.
\<close>

definition clockArmed :: "state \<Rightarrow> bool" where
  "clockArmed s = (case loopId s of Some h \<Rightarrow> timers s = [(h, tickMs s)] | None \<Rightarrow> False)"

definition clockStopped :: "state \<Rightarrow> bool" where
  "clockStopped s = (loopId s = None \<and> timers s = [])"

definition clockSane :: "state \<Rightarrow> bool" where
  "clockSane s = (map fst (timers s) = (case loopId s of Some h \<Rightarrow> [h] | None \<Rightarrow> []))"

text \<open>
  The interval against the value of difficulty: with a preset it is a number at or above
  the floor of the preset; with an inherited member it is undefined.
\<close>

fun aboveFloor :: "entry \<Rightarrow> jsnum \<Rightarrow> bool" where
  "aboveFloor (Own d) (Number t) = (minTickMs d \<le> t)"
| "aboveFloor (Own d) NaN = False"
| "aboveFloor (Own d) Undefined = False"
| "aboveFloor Inherited u = (u = Undefined)"

text \<open>The same, and the interval at most the initial one of the preset.\<close>

fun withinSpeeds :: "entry \<Rightarrow> jsnum \<Rightarrow> bool" where
  "withinSpeeds (Own d) (Number t) = (minTickMs d \<le> t \<and> t \<le> initialSpeedMs d)"
| "withinSpeeds (Own d) NaN = False"
| "withinSpeeds (Own d) Undefined = False"
| "withinSpeeds Inherited u = (u = Undefined)"



text \<open>The invariant of the running program (every reachable state has it).\<close>

definition gameInv :: "state \<Rightarrow> bool" where
  "gameInv s =
     (directionQueue s \<noteq> [] \<and> snake s \<noteq> [] \<and> noReversal (directionQueue s) \<and>
      food s \<notin> set (snake s) \<and>
      DIFFICULTIES (difficultyKey s) = Some (difficulty s) \<and>
      aboveFloor (difficulty s) (tickMs s) \<and>
      (if isPaused s \<or> isGameOver s then clockStopped s else clockArmed s))"

text \<open>The tick that eats: the game runs, the next head is free and is the food cell.\<close>

definition eatsFood :: "state \<Rightarrow> bool" where
  "eatsFood s =
     (\<not> isPaused s \<and> \<not> isGameOver s \<and>
      \<not> willCollide (computeNextHead (snake s) (hd (directionQueue s))) (snake s) \<and>
      computeNextHead (snake s) (hd (directionQueue s)) = food s)"


subsection \<open>Concrete scenarios\<close>

text \<open>A sequence of draws that are all the same number.\<close>

definition constDraws :: "real \<Rightarrow> nat \<Rightarrow> real" where
  "constDraws u k = u"

text \<open>Draws that sweep the grid row by row, again and again.\<close>

definition sweepDraws :: "nat \<Rightarrow> real" where
  "sweepDraws k =
     (if even k then of_nat ((k div 2) mod 20) / 20 else of_nat ((k div 2) div 20 mod 20) / 20)"

text \<open>
  The state right after init with best score 0, difficulty normal and every draw 3/4
  (food at (15,15)), and variants of it for the scenarios of the test plan.
\<close>

definition freshState :: state where
  "freshState =
     \<lparr>difficultyKey = ''normal'',
      difficulty = Own \<lparr>label = ''Normal'', initialSpeedMs = 160, speedupFoodInterval = 4,
                        speedupFactor = toDouble (92 / 100), minTickMs = 75\<rparr>,
      snake = [\<lparr>x = 10, y = 10\<rparr>, \<lparr>x = 9, y = 10\<rparr>, \<lparr>x = 8, y = 10\<rparr>],
      directionQueue = [\<lparr>x = 1, y = 0\<rparr>], food = \<lparr>x = 15, y = 15\<rparr>, score = 0, best = 0,
      tickMs = Number 160, loopId = Some 0, isPaused = False, isGameOver = False,
      timers = [(0, Number 160)], timerCount = 1, randomCalls = 2,
      overlayHidden = True, stateTitle = ''Paused'',
      stateSubtitle = ''Press Space or Tap to resume''\<rparr>"

definition foodAhead :: state where
  "foodAhead = freshState\<lparr>food := \<lparr>x = 11, y = 10\<rparr>\<rparr>"

definition fourthFoodAhead :: state where
  "fourthFoodAhead = freshState\<lparr>food := \<lparr>x = 11, y = 10\<rparr>, score := 3, best := 3\<rparr>"

definition atWall :: state where
  "atWall = freshState\<lparr>snake := [\<lparr>x = 19, y = 10\<rparr>, \<lparr>x = 18, y = 10\<rparr>, \<lparr>x = 17, y = 10\<rparr>]\<rparr>"

definition chasingTail :: state where
  "chasingTail =
     freshState\<lparr>snake := [\<lparr>x = 5, y = 5\<rparr>, \<lparr>x = 5, y = 6\<rparr>, \<lparr>x = 6, y = 6\<rparr>, \<lparr>x = 6, y = 5\<rparr>],
                 directionQueue := [\<lparr>x = 1, y = 0\<rparr>, \<lparr>x = 0, y = - 1\<rparr>]\<rparr>"

definition pausedState :: state where
  "pausedState = freshState\<lparr>isPaused := True, loopId := None, timers := [], overlayHidden := False\<rparr>"


text \<open>The game crashed into the right wall, and the state a restart makes of it.\<close>

definition crashed :: state where
  "crashed =
     atWall\<lparr>isGameOver := True, loopId := None, timers := [], stateTitle := ''Game Over'',
            stateSubtitle := ''Press Restart or Enter'', overlayHidden := False\<rparr>"

definition restarted :: state where
  "restarted =
     freshState\<lparr>loopId := Some 1, timers := [(1, Number 160)], timerCount := 2, randomCalls := 4\<rparr>"

section \<open>Properties\<close>

subsection \<open>Rounding to doubles\<close>

text \<open>
  Rounding never crosses an integer below \<open>2 ^ 53\<close>, so a product with a factor of at
  most one is at most the integer it scales; and \<open>toDouble\<close> is computed from the binade
  of its argument.
\<close>

lemma roundHalfEven_le: "r \<le> of_int m \<Longrightarrow> roundHalfEven r \<le> m"
proof -
  assume le: "r \<le> of_int m"
  then have fl: "\<lfloor>r\<rfloor> \<le> m" by (simp add: floor_le_iff)
  show ?thesis
  proof (cases "\<lfloor>r\<rfloor> = m")
    case True
    then have "of_int m \<le> r" by (metis of_int_floor_le)
    with le have "r = of_int m" by simp
    then show ?thesis by (simp add: roundHalfEven_def)
  next
    case False
    with fl have "\<lfloor>r\<rfloor> + 1 \<le> m" by simp
    then show ?thesis by (auto simp: roundHalfEven_def Let_def)
  qed
qed

lemma roundHalfEven_nonneg: "0 \<le> r \<Longrightarrow> 0 \<le> roundHalfEven r"
  by (auto simp: roundHalfEven_def Let_def)

lemma floor_log2_eq:
  assumes "2 powi k \<le> v" "v < 2 powi (k + 1)"
  shows "\<lfloor>log 2 v\<rfloor> = k"
proof -
  have "(0::real) < 2 powi k" by (rule zero_less_power_int) simp
  with assms(1) have pos: "0 < v" by linarith
  have a: "(2::real) powr (of_int k) = 2 powi k" by (simp add: powr_real_of_int')
  have "(2::real) powr (of_int (k + 1)) = 2 powi (k + 1)" by (rule powr_real_of_int') simp_all
  then have b: "(2::real) powr (of_int k + 1) = 2 powi (k + 1)" by simp
  from assms a b have "2 powr (of_int k) \<le> v \<and> v < 2 powr (of_int k + 1)" by simp
  with floor_log_eq_powr_iff [OF pos, of 2 k] show ?thesis by simp
qed

lemma toDouble_eval:
  assumes "2 powi k \<le> \<bar>v\<bar>" "\<bar>v\<bar> < 2 powi (k + 1)"
  shows "toDouble v = of_int (roundHalfEven (v / 2 powi (k - 52))) * 2 powi (k - 52)"
proof -
  have "(0::real) < 2 powi k" by (rule zero_less_power_int) simp
  with assms(1) have "0 < \<bar>v\<bar>" by linarith
  then have "v \<noteq> 0" by simp
  with floor_log2_eq [OF assms] show ?thesis by (simp add: toDouble_def Let_def)
qed

lemma toDouble_nonneg: "0 \<le> v \<Longrightarrow> 0 \<le> toDouble v"
proof -
  assume v: "0 \<le> v"
  have p: "(0::real) < 2 powi e" for e by (rule zero_less_power_int) simp
  have "0 \<le> v / 2 powi e" for e using v p [of e] by simp
  then have "0 \<le> roundHalfEven (v / 2 powi e)" for e by (rule roundHalfEven_nonneg)
  then have "0 \<le> real_of_int (roundHalfEven (v / 2 powi e)) * 2 powi e" for e
    using p [of e] by simp
  then show ?thesis by (simp add: toDouble_def Let_def)
qed

lemma floor_log2_small:
  fixes v :: real
  assumes "0 < v" "v < 2 ^ 53"
  shows "\<lfloor>log 2 v\<rfloor> \<le> 52"
proof (rule ccontr)
  assume "\<not> \<lfloor>log 2 v\<rfloor> \<le> 52"
  then have "53 \<le> \<lfloor>log 2 v\<rfloor>" by simp
  then have "53 \<le> log 2 v" by (simp add: le_floor_iff)
  then have "2 powr 53 \<le> v" using assms(1) by (simp only: le_log_iff [symmetric])
  with assms(2) show False by simp
qed

lemma power_int_nonpos:
  assumes "e \<le> 0"
  shows "(2::real) powi e = 1 / 2 ^ nat (- e)"
proof -
  from assms have "e = - int (nat (- e))" by simp
  then have "(2::real) powi e = 2 powi (- int (nat (- e)))" by simp
  also have "\<dots> = 1 / 2 powi (int (nat (- e)))" by (rule power_int_minus_divide)
  also have "\<dots> = 1 / 2 ^ nat (- e)" by (simp only: power_int_of_nat)
  finally show ?thesis .
qed

lemma toDouble_le_int:
  assumes "0 \<le> v" "v \<le> of_int m" "m < 2 ^ 53"
  shows "toDouble v \<le> of_int m"
proof (cases "v = 0")
  case True
  with assms show ?thesis by (simp add: toDouble_def)
next
  case False
  with assms have pos: "0 < v" by simp
  define e where "e = \<lfloor>log 2 \<bar>v\<bar>\<rfloor> - 52"
  from assms(3) have "(of_int m :: real) < of_int (2 ^ 53)" by (simp only: of_int_less_iff)
  with assms(2) have "v < 2 ^ 53" by simp
  from floor_log2_small [OF pos this] pos have e: "e \<le> 0" by (simp add: e_def)
  define k where "k = nat (- e)"
  have pw: "(2::real) powi e = 1 / 2 ^ k"
    unfolding k_def using e by (rule power_int_nonpos)
  have "v / 2 powi e = v * 2 ^ k" by (simp add: pw)
  also have "\<dots> \<le> of_int m * 2 ^ k" using assms(2) by simp
  also have "\<dots> = of_int (m * 2 ^ k)" by simp
  finally have "roundHalfEven (v / 2 powi e) \<le> m * 2 ^ k" by (rule roundHalfEven_le)
  then have "of_int (roundHalfEven (v / 2 powi e)) \<le> (of_int (m * 2 ^ k) :: real)"
    by (simp only: of_int_le_iff)
  moreover have "(0::real) \<le> 2 powi e" by (simp add: pw)
  ultimately have "real_of_int (roundHalfEven (v / 2 powi e)) * 2 powi e \<le>
      real_of_int (m * 2 ^ k) * 2 powi e"
    by (rule mult_right_mono)
  also have "real_of_int (m * 2 ^ k) * 2 powi e = of_int m" by (simp add: pw)
  finally show ?thesis using False by (simp add: toDouble_def e_def Let_def)
qed


lemma power_int_values: "(2::real) powi (- 1) = 1 / 2" "(2::real) powi (- 53) = 1 / 2 ^ 53"
  "(2::real) powi (- 45) = 1 / 2 ^ 45"
  by (simp_all add: power_int_minus_divide)

lemma toDouble_value:
  assumes "2 powi k \<le> \<bar>v\<bar>" "\<bar>v\<bar> < 2 powi (k + 1)"
    and "roundHalfEven (v / 2 powi (k - 52)) = n"
  shows "toDouble v = of_int n * 2 powi (k - 52)"
  using toDouble_eval [OF assms(1,2)] assms(3) by simp



text \<open>
  Where the rounding shows: for the easy preset at an interval of 2150 the product in
  doubles is just below 2021, the exact one just above.
\<close>

lemma power_int_42: "(2::real) powi (- 42) = 1 / 2 ^ 42"
  by (simp add: power_int_minus_divide)

lemma toDouble_0_94: "toDouble (94 / 100) = 8466767299456532 / 2 ^ 53"
proof -
  have "toDouble (94 / 100) = of_int 8466767299456532 * 2 powi (- 1 - 52)"
    by (rule toDouble_value) (simp_all add: roundHalfEven_def power_int_values)
  then show ?thesis by (simp add: power_int_values)
qed

lemma floorTimes_2150_easy:
  "floorTimes (Number 2150) (toDouble (94 / 100)) = Number 2020 \<and>
   \<lfloor>of_int 2150 * (94 / 100 :: real)\<rfloor> = 2021"
proof -
  have "toDouble (of_int 2150 * (8466767299456532 / 2 ^ 53)) =
        of_int 8888451998941183 * 2 powi (10 - 52)"
    by (rule toDouble_value) (simp_all add: roundHalfEven_def power_int_42)
  then have "toDouble (of_int 2150 * toDouble (94 / 100)) =
        of_int 8888451998941183 * 2 powi (10 - 52)"
    by (simp only: toDouble_0_94)
  moreover have "\<lfloor>real_of_int 8888451998941183 * 2 powi (10 - 52)\<rfloor> = 2020"
    by (simp add: power_int_42)
  ultimately have "\<lfloor>toDouble (of_int 2150 * toDouble (94 / 100))\<rfloor> = 2020" by (simp only:)
  then show ?thesis by simp
qed

lemma toDouble_unit: "0 \<le> v \<Longrightarrow> v \<le> 1 \<Longrightarrow> 0 \<le> toDouble v \<and> toDouble v \<le> 1"
  using toDouble_nonneg [of v] toDouble_le_int [of v 1] by simp

subsection \<open>Food placement\<close>

lemma positionsEqual_eq: "positionsEqual a b \<longleftrightarrow> a = b"
  by (cases a, cases b) (auto simp: positionsEqual_def)

lemma list_ex_positionsEqual: "list_ex (\<lambda>q. positionsEqual q p) cells \<longleftrightarrow> p \<in> set cells"
  by (auto simp: list_ex_iff positionsEqual_eq)

lemma list_ex_positionsEqual': "list_ex (positionsEqual p) cells \<longleftrightarrow> p \<in> set cells"
  by (auto simp: list_ex_iff positionsEqual_eq)

lemma getRandomEmptyCell_unfold:
  "getRandomEmptyCell rnd k cells =
     (if sampleCell rnd k \<notin> set cells then Some (sampleCell rnd k, k + 2)
      else getRandomEmptyCell rnd (k + 2) cells)"
  by (subst getRandomEmptyCell.simps) (simp add: sampleCell_def list_ex_positionsEqual Let_def)

lemma getRandomEmptyCell_first_free:
  "sampleCell rnd (k + 2 * n) \<notin> set cells \<Longrightarrow>
   (\<forall>m<n. sampleCell rnd (k + 2 * m) \<in> set cells) \<Longrightarrow>
   getRandomEmptyCell rnd k cells = Some (sampleCell rnd (k + 2 * n), k + 2 * n + 2)"
proof (induction n arbitrary: k)
  case 0
  then show ?case by (subst getRandomEmptyCell_unfold) simp
next
  case (Suc n)
  from Suc.prems(2) have here: "sampleCell rnd k \<in> set cells" by force
  have free: "sampleCell rnd ((k + 2) + 2 * n) \<notin> set cells"
    using Suc.prems(1) by (simp add: add.commute add.left_commute)
  have busy: "\<forall>m<n. sampleCell rnd ((k + 2) + 2 * m) \<in> set cells"
  proof (intro allI impI)
    fix m assume "m < n"
    then have "Suc m < Suc n" by simp
    with Suc.prems(2) have "sampleCell rnd (k + 2 * Suc m) \<in> set cells" by blast
    then show "sampleCell rnd ((k + 2) + 2 * m) \<in> set cells"
      by (simp add: add.commute add.left_commute)
  qed
  have "getRandomEmptyCell rnd (k + 2) cells =
          Some (sampleCell rnd ((k + 2) + 2 * n), (k + 2) + 2 * n + 2)"
    by (rule Suc.IH [OF free busy])
  with here show ?case
    by (subst getRandomEmptyCell_unfold) (simp add: add.commute add.left_commute)
qed

lemma getRandomEmptyCell_returns:
  "sampleCell rnd (k + 2 * n) \<notin> set cells \<Longrightarrow> \<exists>r. getRandomEmptyCell rnd k cells = Some r"
proof (induction n arbitrary: k)
  case 0
  then show ?case by (subst getRandomEmptyCell_unfold) simp
next
  case (Suc n)
  have "sampleCell rnd ((k + 2) + 2 * n) \<notin> set cells"
    using Suc.prems by (simp add: add.commute add.left_commute)
  then have "\<exists>r. getRandomEmptyCell rnd (k + 2) cells = Some r" by (rule Suc.IH)
  then show ?case by (subst getRandomEmptyCell_unfold) simp
qed

lemma getRandomEmptyCell_Some:
  assumes ret: "getRandomEmptyCell rnd k cells = Some r"
  shows "\<exists>n. r = (sampleCell rnd (k + 2 * n), k + 2 * n + 2) \<and>
             sampleCell rnd (k + 2 * n) \<notin> set cells"
proof (rule getRandomEmptyCell.raw_induct
    [where P = "\<lambda>rnd k cells r. \<exists>n. r = (sampleCell rnd (k + 2 * n), k + 2 * n + 2) \<and>
                  sampleCell rnd (k + 2 * n) \<notin> set cells", OF _ ret])
  fix f :: "(nat \<Rightarrow> real) \<Rightarrow> nat \<Rightarrow> pos list \<Rightarrow> (pos \<times> nat) option"
  fix rnd k cells r
  assume IH: "\<And>rnd k cells r. f rnd k cells = Some r \<Longrightarrow>
      \<exists>n. r = (sampleCell rnd (k + 2 * n), k + 2 * n + 2) \<and> sampleCell rnd (k + 2 * n) \<notin> set cells"
  assume body: "(let p = \<lparr>x = randomInt (rnd k) 0 GRID_SIZE, y = randomInt (rnd (Suc k)) 0 GRID_SIZE\<rparr>
      in if \<not> list_ex (\<lambda>q. positionsEqual q p) cells then Some (p, k + 2)
         else f rnd (k + 2) cells) = Some r"
  show "\<exists>n. r = (sampleCell rnd (k + 2 * n), k + 2 * n + 2) \<and> sampleCell rnd (k + 2 * n) \<notin> set cells"
  proof (cases "sampleCell rnd k \<in> set cells")
    case False
    with body have "r = (sampleCell rnd k, k + 2)"
      by (auto simp: sampleCell_def list_ex_positionsEqual Let_def)
    with False have "r = (sampleCell rnd (k + 2 * 0), k + 2 * 0 + 2) \<and>
        sampleCell rnd (k + 2 * 0) \<notin> set cells" by simp
    then show ?thesis by blast
  next
    case True
    with body have "f rnd (k + 2) cells = Some r"
      by (simp add: sampleCell_def list_ex_positionsEqual Let_def)
    then obtain n where
      "r = (sampleCell rnd ((k + 2) + 2 * n), (k + 2) + 2 * n + 2) \<and>
       sampleCell rnd ((k + 2) + 2 * n) \<notin> set cells"
      using IH by blast
    then have "r = (sampleCell rnd (k + 2 * Suc n), k + 2 * Suc n + 2) \<and>
        sampleCell rnd (k + 2 * Suc n) \<notin> set cells"
      by (simp add: add.commute add.left_commute)
    then show ?thesis by blast
  qed
qed

lemma getRandomEmptyCell_None:
  "(\<forall>n. sampleCell rnd (k + 2 * n) \<in> set cells) \<Longrightarrow> getRandomEmptyCell rnd k cells = None"
  using getRandomEmptyCell_Some [of rnd k cells] by (cases "getRandomEmptyCell rnd k cells") auto

lemma randomInt_range:
  "0 \<le> u \<Longrightarrow> u < 1 \<Longrightarrow> 0 \<le> randomInt u 0 GRID_SIZE \<and> randomInt u 0 GRID_SIZE < GRID_SIZE"
  by (simp add: randomInt_def GRID_SIZE_def floor_less_iff)

lemma sampleCell_inGrid: "unitDraws rnd \<Longrightarrow> inGrid (sampleCell rnd k)"
  using randomInt_range [of "rnd k"] randomInt_range [of "rnd (Suc k)"]
  by (simp add: unitDraws_def sampleCell_def inGrid_def)

subsection \<open>Arming and stopping the clock\<close>

lemma startLoop_eq:
  "startLoop s =
     s\<lparr>loopId := Some (timerCount s),
       timers := (case loopId s of Some h \<Rightarrow> filter (\<lambda>t. fst t \<noteq> h) (timers s) | None \<Rightarrow> timers s)
                 @ [(timerCount s, tickMs s)],
       timerCount := Suc (timerCount s)\<rparr>"
  by (cases "loopId s") (simp_all add: startLoop_def setInterval_def clearInterval_def)

lemma startLoop_armed: "clockSane s \<Longrightarrow> clockArmed (startLoop s)"
  by (cases "loopId s"; cases "timers s")
     (auto simp: clockSane_def clockArmed_def startLoop_def setInterval_def clearInterval_def)

lemma startLoop_stopped_eq:
  "clockStopped s \<Longrightarrow>
   startLoop s = s\<lparr>loopId := Some (timerCount s), timers := [(timerCount s, tickMs s)],
                    timerCount := Suc (timerCount s)\<rparr>"
  by (simp add: clockStopped_def startLoop_def setInterval_def)

lemma stopLoop_armed_eq: "clockSane s \<Longrightarrow> stopLoop s = s\<lparr>loopId := None, timers := []\<rparr>"
  by (cases "loopId s"; cases "timers s")
     (auto simp: clockSane_def stopLoop_def clearInterval_def)

lemma clockArmed_sane: "clockArmed s \<Longrightarrow> clockSane s"
  by (auto simp: clockArmed_def clockSane_def split: option.splits)

lemma clockStopped_sane: "clockStopped s \<Longrightarrow> clockSane s"
  by (auto simp: clockStopped_def clockSane_def)

lemma gameInv_sane: "gameInv s \<Longrightarrow> clockSane s"
  by (auto simp: gameInv_def clockArmed_sane clockStopped_sane split: if_splits)

subsection \<open>Score, speed and the outcomes of a tick\<close>

lemma DIFFICULTIES_sound:
  "DIFFICULTIES key = Some (Own d) \<Longrightarrow>
   0 \<le> speedupFactor d \<and> speedupFactor d \<le> 1 \<and> 0 < speedupFoodInterval d \<and>
   0 \<le> minTickMs d \<and> minTickMs d \<le> initialSpeedMs d \<and> initialSpeedMs d < 2 ^ 53"
  using toDouble_unit [of "94 / 100"] toDouble_unit [of "92 / 100"]
    toDouble_unit [of "90 / 100"] toDouble_unit [of "88 / 100"]
  by (auto simp: DIFFICULTIES_def split: if_splits)

lemma updateScore_eq:
  "updateScore delta s =
     s\<lparr>score := score s + delta, best := (if score s + delta > best s then score s + delta else best s)\<rparr>"
  by (simp add: updateScore_def Let_def)

lemma updateScore_fields:
  "snake (updateScore delta s) = snake s"
  "directionQueue (updateScore delta s) = directionQueue s"
  "food (updateScore delta s) = food s"
  "tickMs (updateScore delta s) = tickMs s"
  "difficulty (updateScore delta s) = difficulty s"
  "difficultyKey (updateScore delta s) = difficultyKey s"
  "isPaused (updateScore delta s) = isPaused s"
  "isGameOver (updateScore delta s) = isGameOver s"
  "randomCalls (updateScore delta s) = randomCalls s"
  "loopId (updateScore delta s) = loopId s"
  "timers (updateScore delta s) = timers s"
  "score (updateScore delta s) = score s + delta"
  by (simp_all add: updateScore_eq)

lemma strictNe_eq: "\<not> strictNe a b \<Longrightarrow> a = b"
  by (cases a; cases b) simp_all

lemma maybeSpeedUp_eq:
  "maybeSpeedUp s =
     (case difficulty s of
        Inherited \<Rightarrow> s
      | Own d \<Rightarrow>
          if 0 < score s \<and> score s mod speedupFoodInterval d = 0 \<and>
             strictNe (mathMax (minTickMs d) (floorTimes (tickMs s) (speedupFactor d))) (tickMs s)
          then startLoop (s\<lparr>tickMs := mathMax (minTickMs d)
                                          (floorTimes (tickMs s) (speedupFactor d))\<rparr>)
          else s)"
  by (simp add: maybeSpeedUp_def Let_def split: entry.split)

lemma maybeSpeedUp_tickMs:
  "tickMs (maybeSpeedUp s) =
     (case difficulty s of
        Inherited \<Rightarrow> tickMs s
      | Own d \<Rightarrow>
          if 0 < score s \<and> score s mod speedupFoodInterval d = 0
          then mathMax (minTickMs d) (floorTimes (tickMs s) (speedupFactor d))
          else tickMs s)"
  by (auto simp: maybeSpeedUp_eq startLoop_eq dest: strictNe_eq split: entry.split)

lemma maybeSpeedUp_fields:
  "snake (maybeSpeedUp s) = snake s"
  "directionQueue (maybeSpeedUp s) = directionQueue s"
  "food (maybeSpeedUp s) = food s"
  "score (maybeSpeedUp s) = score s"
  "best (maybeSpeedUp s) = best s"
  "difficulty (maybeSpeedUp s) = difficulty s"
  "difficultyKey (maybeSpeedUp s) = difficultyKey s"
  "isPaused (maybeSpeedUp s) = isPaused s"
  "isGameOver (maybeSpeedUp s) = isGameOver s"
  "randomCalls (maybeSpeedUp s) = randomCalls s"
  "overlayHidden (maybeSpeedUp s) = overlayHidden s"
  "stateTitle (maybeSpeedUp s) = stateTitle s"
  "stateSubtitle (maybeSpeedUp s) = stateSubtitle s"
  by (simp_all add: maybeSpeedUp_eq startLoop_eq split: entry.split)

lemma maybeSpeedUp_armed: "clockArmed s \<Longrightarrow> clockArmed (maybeSpeedUp s)"
proof -
  assume armed: "clockArmed s"
  have "clockSane (s\<lparr>tickMs := t\<rparr>)" for t
    using clockArmed_sane [OF armed] by (simp add: clockSane_def)
  then show ?thesis
    using armed by (simp add: maybeSpeedUp_eq startLoop_armed split: entry.split)
qed

lemma maybeSpeedUp_aboveFloor:
  "aboveFloor (difficulty s) (tickMs s) \<Longrightarrow> aboveFloor (difficulty s) (tickMs (maybeSpeedUp s))"
  by (cases "difficulty s"; cases "tickMs s") (simp_all add: maybeSpeedUp_tickMs)


lemma gameOver_eq:
  "clockSane s \<Longrightarrow>
   gameOver s = s\<lparr>isGameOver := True, loopId := None, timers := [],
                   stateTitle := ''Game Over'', stateSubtitle := ''Press Restart or Enter'',
                   overlayHidden := False\<rparr>"
proof -
  assume "clockSane s"
  then have "clockSane (s\<lparr>isGameOver := True\<rparr>)" by (simp add: clockSane_def)
  then show ?thesis
    by (simp add: gameOver_def showOverlay_def updatePanel_def stopLoop_armed_eq)
qed

lemma tick_idle: "isPaused s \<or> isGameOver s \<Longrightarrow> tick rnd s = Some (Inr s)"
  by (simp add: tick_def)

lemma update_same_queue: "directionQueue s = q \<Longrightarrow> s\<lparr>directionQueue := q\<rparr> = s"
  by auto

lemma tick_collide:
  assumes "\<not> isPaused s" "\<not> isGameOver s" "directionQueue s \<noteq> []" "snake s \<noteq> []"
    and "willCollide (computeNextHead (snake s) (hd (directionQueue s))) (snake s)"
  shows "tick rnd s = Some (Inr (gameOver (s\<lparr>directionQueue := consumeOne (directionQueue s)\<rparr>)))"
proof -
  from assms(3,4) obtain d ds h t where q: "directionQueue s = d # ds" and b: "snake s = h # t"
    by (cases "directionQueue s"; cases "snake s") auto
  show ?thesis
    using assms(1,2,5)
    by (cases ds)
       (simp_all add: tick_def Let_def q b willCollide_def computeNextHead_def inGrid_def
          list_ex_positionsEqual' positionsEqual_eq consumeOne_def update_same_queue
          not_le not_less, auto)
qed

lemma tick_move:
  assumes "\<not> isPaused s" "\<not> isGameOver s" "directionQueue s \<noteq> []" "snake s \<noteq> []"
    and "\<not> willCollide (computeNextHead (snake s) (hd (directionQueue s))) (snake s)"
    and "computeNextHead (snake s) (hd (directionQueue s)) \<noteq> food s"
  shows "tick rnd s =
    Some (Inr (s\<lparr>directionQueue := consumeOne (directionQueue s),
                  snake := computeNextHead (snake s) (hd (directionQueue s)) # butlast (snake s)\<rparr>))"
proof -
  from assms(3,4) obtain d ds h t where q: "directionQueue s = d # ds" and b: "snake s = h # t"
    by (cases "directionQueue s"; cases "snake s") auto
  show ?thesis
    using assms(1,2,5,6)
    by (cases ds)
       (simp_all add: tick_def Let_def q b willCollide_def computeNextHead_def inGrid_def
          list_ex_positionsEqual' positionsEqual_eq consumeOne_def update_same_queue not_le not_less)
qed

lemma tick_eat:
  assumes "\<not> isPaused s" "\<not> isGameOver s" "directionQueue s \<noteq> []" "snake s \<noteq> []"
    and "\<not> willCollide (computeNextHead (snake s) (hd (directionQueue s))) (snake s)"
    and "computeNextHead (snake s) (hd (directionQueue s)) = food s"
  shows "tick rnd s =
    (case getRandomEmptyCell rnd (randomCalls s) (food s # snake s) of
       None \<Rightarrow> None
     | Some (cell, k) \<Rightarrow>
         Some (Inr ((maybeSpeedUp (updateScore 1
            (s\<lparr>directionQueue := consumeOne (directionQueue s), snake := food s # snake s\<rparr>)))
              \<lparr>food := cell, randomCalls := k\<rparr>)))"
proof -
  from assms(3,4) obtain d ds h t where q: "directionQueue s = d # ds" and b: "snake s = h # t"
    by (cases "directionQueue s"; cases "snake s") auto
  have nh: "\<lparr>x = x h + x d, y = y h + y d\<rparr> = food s"
    using assms(6) by (simp add: computeNextHead_def q b)
  have free: "0 \<le> x (food s)" "0 \<le> y (food s)" "x (food s) < GRID_SIZE" "y (food s) < GRID_SIZE"
    "food s \<noteq> h" "food s \<notin> set t"
    using assms(5,6) by (simp_all add: willCollide_def inGrid_def b)
  show ?thesis
    using assms(1,2) free
    by (cases ds)
       (simp_all add: tick_def Let_def q b nh list_ex_positionsEqual' positionsEqual_eq
          consumeOne_def update_same_queue not_le not_less maybeSpeedUp_fields
          updateScore_fields cong: option.case_cong)
qed

subsection \<open>The invariant\<close>

lemma consumeOne_nonempty: "q \<noteq> [] \<Longrightarrow> consumeOne q \<noteq> []"
  by (cases q) (auto simp: consumeOne_def)

lemma noReversal_tl: "noReversal q \<Longrightarrow> noReversal (tl q)"
  by (induction q rule: noReversal.induct) auto

lemma noReversal_consumeOne: "noReversal q \<Longrightarrow> noReversal (consumeOne q)"
  by (simp add: consumeOne_def noReversal_tl)

lemma noReversal_snoc:
  "noReversal (q @ [d]) \<longleftrightarrow>
   noReversal q \<and> (q = [] \<or> \<not> (x (last q) + x d = 0 \<and> y (last q) + y d = 0))"
  by (induction q rule: noReversal.induct) auto

lemma clockArmed_frame:
  "loopId s' = loopId s \<Longrightarrow> timers s' = timers s \<Longrightarrow> tickMs s' = tickMs s \<Longrightarrow>
   clockArmed s' = clockArmed s"
  by (simp add: clockArmed_def split: option.splits)

lemma resetGame_eq:
  "resetGame rnd s =
     (case getRandomEmptyCell rnd (randomCalls s)
             [\<lparr>x = 10, y = 10\<rparr>, \<lparr>x = 9, y = 10\<rparr>, \<lparr>x = 8, y = 10\<rparr>] of
        None \<Rightarrow> None
      | Some (cell, k) \<Rightarrow>
          Some (s\<lparr>snake := [\<lparr>x = 10, y = 10\<rparr>, \<lparr>x = 9, y = 10\<rparr>, \<lparr>x = 8, y = 10\<rparr>],
                 directionQueue := [\<lparr>x = 1, y = 0\<rparr>], food := cell, randomCalls := k,
                 score := 0, best := (if 0 > best s then 0 else best s),
                 tickMs := initialSpeedOf (difficulty s), isPaused := False, isGameOver := False,
                 loopId := Some (timerCount s),
                 timers := (case loopId s of Some h \<Rightarrow> filter (\<lambda>t. fst t \<noteq> h) (timers s)
                            | None \<Rightarrow> timers s) @ [(timerCount s, initialSpeedOf (difficulty s))],
                 timerCount := Suc (timerCount s), overlayHidden := True,
                 stateTitle := ''Paused'', stateSubtitle := ''Press Space or Tap to resume''\<rparr>))"
  by (simp add: resetGame_def Let_def GRID_SIZE_def startLoop_eq updateScore_eq hideOverlay_def
        updatePanel_def split: option.split)

lemma sane_filter:
  "clockSane s \<Longrightarrow>
   (case loopId s of Some h \<Rightarrow> filter (\<lambda>t. fst t \<noteq> h) (timers s) | None \<Rightarrow> timers s) = []"
  by (cases "loopId s"; cases "timers s") (auto simp: clockSane_def)

lemma resetGame_gameInv:
  assumes sane: "clockSane s" and tab: "DIFFICULTIES (difficultyKey s) = Some (difficulty s)"
    and ret: "resetGame rnd s = Some s'"
  shows "gameInv s'"
proof -
  from ret obtain cell k where
    cell: "getRandomEmptyCell rnd (randomCalls s)
             [\<lparr>x = 10, y = 10\<rparr>, \<lparr>x = 9, y = 10\<rparr>, \<lparr>x = 8, y = 10\<rparr>] = Some (cell, k)"
    by (auto simp: resetGame_eq split: option.splits)
  from getRandomEmptyCell_Some [OF cell]
  have free: "cell \<notin> set [\<lparr>x = 10, y = 10\<rparr>, \<lparr>x = 9, y = 10\<rparr>, \<lparr>x = 8, y = 10\<rparr>]" by auto
  have "aboveFloor (difficulty s) (initialSpeedOf (difficulty s))"
  proof (cases "difficulty s")
    case (Own d)
    with DIFFICULTIES_sound [of "difficultyKey s" d] tab show ?thesis by simp
  next
    case Inherited
    then show ?thesis by simp
  qed
  with ret cell free tab show ?thesis
    by (auto simp: resetGame_eq gameInv_def clockArmed_def sane_filter [OF sane])
qed

lemma setDifficultyFromKey_table:
  "DIFFICULTIES (difficultyKey (setDifficultyFromKey key s)) =
   Some (difficulty (setDifficultyFromKey key s))"
  by (auto simp: setDifficultyFromKey_def Let_def DIFFICULTIES_def)

lemma setDifficultyFromKey_sane: "clockSane s \<Longrightarrow> clockSane (setDifficultyFromKey key s)"
  by (auto simp: setDifficultyFromKey_def Let_def clockSane_def split: option.splits)

lemma queueDirection_gameInv: "gameInv s \<Longrightarrow> gameInv (queueDirection d s)"
  by (auto simp: gameInv_def queueDirection_def Let_def noReversal_snoc clockArmed_def
        clockStopped_def split: option.splits)

lemma togglePause_gameInv: "gameInv s \<Longrightarrow> gameInv (togglePause s)"
proof -
  assume inv: "gameInv s"
  show ?thesis
  proof (cases "isGameOver s")
    case True
    then show ?thesis using inv by (simp add: togglePause_def)
  next
    case False
    show ?thesis
    proof (cases "isPaused s")
      case True
      with False inv have "clockStopped (hideOverlay (s\<lparr>isPaused := False\<rparr>))"
        by (simp add: gameInv_def clockStopped_def hideOverlay_def)
      from startLoop_stopped_eq [OF this] True False inv show ?thesis
        by (simp add: togglePause_def Let_def gameInv_def hideOverlay_def clockArmed_def)
    next
      case notPaused: False
      with False inv have "clockSane (s\<lparr>isPaused := True\<rparr>)"
        by (auto simp: gameInv_def clockSane_def clockArmed_def split: option.splits)
      from stopLoop_armed_eq [OF this] notPaused False inv show ?thesis
        by (simp add: togglePause_def Let_def gameInv_def showOverlay_def updatePanel_def
              clockStopped_def)
    qed
  qed
qed

lemma resume_gameInv: "gameInv s \<Longrightarrow> gameInv (resume s)"
  by (simp add: resume_def togglePause_gameInv)

lemma dispatch_gameInv:
  assumes inv: "gameInv s" and ret: "dispatch rnd ev s = Some s'"
  shows "gameInv s'"
proof (cases ev)
  case (DifficultyChange newKey)
  with ret have "resetGame rnd (setDifficultyFromKey newKey s) = Some s'"
    by (simp add: dispatch_def)
  then show ?thesis
    by (rule resetGame_gameInv [OF setDifficultyFromKey_sane [OF gameInv_sane [OF inv]]
          setDifficultyFromKey_table])
next
  case RestartBtn
  with ret have "resetGame rnd s = Some s'" by (simp add: dispatch_def restart_def)
  moreover from inv have "DIFFICULTIES (difficultyKey s) = Some (difficulty s)"
    by (simp add: gameInv_def)
  ultimately show ?thesis using resetGame_gameInv [OF gameInv_sane [OF inv]] by blast
next
  case PanelRestartBtn
  with ret have "resetGame rnd s = Some s'" by (simp add: dispatch_def restart_def)
  moreover from inv have "DIFFICULTIES (difficultyKey s) = Some (difficulty s)"
    by (simp add: gameInv_def)
  ultimately show ?thesis using resetGame_gameInv [OF gameInv_sane [OF inv]] by blast
qed (use inv ret in \<open>auto simp: dispatch_def togglePause_gameInv resume_gameInv
       queueDirection_gameInv split: if_splits option.splits\<close>)

lemma init_gameInv: "init rnd b key = Some s \<Longrightarrow> gameInv s"
proof -
  assume ret: "init rnd b key = Some s"
  have "clockSane (moduleState\<lparr>best := b\<rparr>)" by (simp add: clockSane_def moduleState_def)
  then have "clockSane (setDifficultyFromKey key (moduleState\<lparr>best := b\<rparr>))"
    by (rule setDifficultyFromKey_sane)
  from resetGame_gameInv [OF this setDifficultyFromKey_table] ret show ?thesis
    by (simp add: init_def)
qed

lemma tick_gameInv:
  assumes inv: "gameInv s" and ret: "tick rnd s = Some (Inr s')"
  shows "gameInv s'"
proof (cases "isPaused s \<or> isGameOver s")
  case True
  with ret inv show ?thesis by (simp add: tick_idle)
next
  case False
  then have run: "\<not> isPaused s" "\<not> isGameOver s" by simp_all
  from inv have ne: "directionQueue s \<noteq> []" "snake s \<noteq> []" by (simp_all add: gameInv_def)
  define nh where "nh = computeNextHead (snake s) (hd (directionQueue s))"
  define s1 where "s1 = s\<lparr>directionQueue := consumeOne (directionQueue s)\<rparr>"
  have q1: "consumeOne (directionQueue s) \<noteq> []" "noReversal (consumeOne (directionQueue s))"
    using inv by (simp_all add: gameInv_def consumeOne_nonempty noReversal_consumeOne)
  from inv run have armed: "clockArmed s" by (simp add: gameInv_def)
  show ?thesis
  proof (cases "willCollide nh (snake s)")
    case True
    have "clockSane s1" using gameInv_sane [OF inv] by (simp add: s1_def clockSane_def)
    from gameOver_eq [OF this] tick_collide [OF run ne True [unfolded nh_def], of rnd] ret
    have "s' = s1\<lparr>isGameOver := True, loopId := None, timers := [],
                   stateTitle := ''Game Over'', stateSubtitle := ''Press Restart or Enter'',
                   overlayHidden := False\<rparr>"
      by (simp add: s1_def)
    with inv q1 show ?thesis by (simp add: gameInv_def s1_def clockStopped_def)
  next
    case noHit: False
    show ?thesis
    proof (cases "nh = food s")
      case False
      from tick_move [OF run ne noHit [unfolded nh_def] False [unfolded nh_def], of rnd] ret
      have s': "s' = s1\<lparr>snake := nh # butlast (snake s)\<rparr>" by (simp add: s1_def nh_def)
      from inv have "food s \<notin> set (butlast (snake s))"
        by (auto simp: gameInv_def dest: in_set_butlastD)
      moreover have "clockArmed s' = clockArmed s"
        by (rule clockArmed_frame) (simp_all add: s' s1_def)
      ultimately show ?thesis
        using False inv q1 run armed by (auto simp: s' s1_def gameInv_def)
    next
      case True
      from tick_eat [OF run ne noHit [unfolded nh_def] True [unfolded nh_def], of rnd] ret
      obtain cell k where
        cell: "getRandomEmptyCell rnd (randomCalls s) (food s # snake s) = Some (cell, k)"
        and s': "s' = (maybeSpeedUp (updateScore 1 (s1\<lparr>snake := food s # snake s\<rparr>)))
                        \<lparr>food := cell, randomCalls := k\<rparr>"
        by (auto simp: s1_def split: option.splits)
      define s2 where "s2 = updateScore 1 (s1\<lparr>snake := food s # snake s\<rparr>)"
      from getRandomEmptyCell_Some [OF cell] have free: "cell \<notin> set (food s # snake s)" by auto
      have tab: "DIFFICULTIES (difficultyKey s) = Some (difficulty s2)"
        and low: "aboveFloor (difficulty s2) (tickMs s2)"
        using inv by (simp_all add: s2_def s1_def updateScore_fields gameInv_def)
      have "clockArmed s2 = clockArmed s"
        by (rule clockArmed_frame) (simp_all add: s2_def s1_def updateScore_fields)
      with armed have "clockArmed s2" by simp
      then have armed': "clockArmed (maybeSpeedUp s2)" by (rule maybeSpeedUp_armed)
      from maybeSpeedUp_aboveFloor [OF low]
      have low': "aboveFloor (difficulty s2) (tickMs (maybeSpeedUp s2))" .
      have d2: "difficulty s2 = difficulty s" "difficultyKey s2 = difficultyKey s"
        "isPaused s2 = isPaused s" "isGameOver s2 = isGameOver s"
        "directionQueue s2 = consumeOne (directionQueue s)" "snake s2 = food s # snake s"
        by (simp_all add: s2_def s1_def updateScore_fields)
      have "clockArmed ((maybeSpeedUp s2)\<lparr>food := cell, randomCalls := k\<rparr>) =
            clockArmed (maybeSpeedUp s2)"
        by (rule clockArmed_frame) simp_all
      with armed' have "clockArmed ((maybeSpeedUp s2)\<lparr>food := cell, randomCalls := k\<rparr>)"
        by simp
      with free low' inv q1 run show ?thesis
        unfolding s' s2_def [symmetric]
        by (simp add: gameInv_def maybeSpeedUp_fields d2)
    qed
  qed
qed

lemma reachable_gameInv: "reachable rnd s \<Longrightarrow> gameInv s"
  by (induction rule: reachable.induct)
     (auto intro: init_gameInv tick_gameInv dispatch_gameInv)

subsection \<open>The scenarios satisfy the invariant\<close>

lemma gameInv_scenarios:
  "gameInv freshState" "gameInv foodAhead" "gameInv fourthFoodAhead" "gameInv atWall"
  "gameInv chasingTail" "gameInv pausedState"
  by (simp_all add: gameInv_def freshState_def foodAhead_def fourthFoodAhead_def atWall_def
        chasingTail_def pausedState_def DIFFICULTIES_def clockArmed_def clockStopped_def)

lemma reachable_freshState: "reachable (constDraws (3 / 4)) freshState"
proof -
  have "init (constDraws (3 / 4)) 0 ''normal'' = Some freshState"
    by (simp add: init_def resetGame_eq moduleState_def setDifficultyFromKey_def DIFFICULTIES_def
          getRandomEmptyCell.simps constDraws_def randomInt_def GRID_SIZE_def positionsEqual_def
          freshState_def)
  then show ?thesis by (rule reach_init)
qed


section \<open>The claims\<close>

text \<open>
  C1. A tick of a running game ends the game, and stops the clock, exactly when the next
  head is off the grid or on a cell of the body as it is before the move, tail included.
\<close>

theorem tick_gameOver_iff_collision:
  assumes "gameInv s" "\<not> isPaused s" "\<not> isGameOver s"
  shows "case tick rnd s of
           Some (Inr s') \<Rightarrow>
             (isGameOver s' \<longleftrightarrow>
                willCollide (computeNextHead (snake s) (hd (directionQueue s))) (snake s)) \<and>
             (if isGameOver s' then clockStopped s' else clockArmed s')
         | Some (Inl e) \<Rightarrow> False
         | None \<Rightarrow> \<not> willCollide (computeNextHead (snake s) (hd (directionQueue s))) (snake s)"
proof -
  from assms(1) have ne: "directionQueue s \<noteq> []" "snake s \<noteq> []" by (simp_all add: gameInv_def)
  note run = assms(2,3)
  define nh where "nh = computeNextHead (snake s) (hd (directionQueue s))"
  show ?thesis
  proof (cases "willCollide nh (snake s)")
    case True
    have t: "tick rnd s = Some (Inr (gameOver (s\<lparr>directionQueue := consumeOne (directionQueue s)\<rparr>)))"
      using tick_collide [OF run ne] True by (simp add: nh_def)
    from tick_gameInv [OF assms(1) t]
    have inv': "gameInv (gameOver (s\<lparr>directionQueue := consumeOne (directionQueue s)\<rparr>))" .
    have over: "isGameOver (gameOver (s\<lparr>directionQueue := consumeOne (directionQueue s)\<rparr>))"
      by (simp add: gameOver_def showOverlay_def updatePanel_def stopLoop_def clearInterval_def
            split: option.splits)
    with inv' have "clockStopped (gameOver (s\<lparr>directionQueue := consumeOne (directionQueue s)\<rparr>))"
      by (simp add: gameInv_def)
    with over True show ?thesis by (simp add: t nh_def)
  next
    case False
    show ?thesis
    proof (cases "tick rnd s")
      case None
      with False show ?thesis by (simp add: nh_def)
    next
      case (Some r)
      show ?thesis
      proof (cases r)
        case (Inl e)
        with Some False tick_move [OF run ne, of rnd] tick_eat [OF run ne, of rnd] show ?thesis
          by (cases "nh = food s") (auto simp: nh_def split: option.splits)
      next
        case (Inr s')
        with Some have t: "tick rnd s = Some (Inr s')" by simp
        from tick_gameInv [OF assms(1) t] have inv': "gameInv s'" .
        have flags: "\<not> isPaused s' \<and> \<not> isGameOver s'"
          using False t tick_move [OF run ne, of rnd] tick_eat [OF run ne, of rnd] run
          by (cases "nh = food s")
             (auto simp: nh_def maybeSpeedUp_fields updateScore_fields split: option.splits)
        with inv' have "clockArmed s'" by (simp add: gameInv_def)
        with flags False show ?thesis by (simp add: t nh_def)
      qed
    qed
  qed
qed

theorem tick_gameOver_iff_collision_witness:
  "gameInv chasingTail \<and> \<not> isPaused chasingTail \<and> \<not> isGameOver chasingTail \<and>
   computeNextHead (snake chasingTail) (hd (directionQueue chasingTail)) = last (snake chasingTail) \<and>
   (case tick (constDraws (3 / 4)) chasingTail of
      Some (Inr s') \<Rightarrow> isGameOver s' \<and> clockStopped s'
    | Some (Inl e) \<Rightarrow> False
    | None \<Rightarrow> False)"
proof -
  have h: "gameInv chasingTail" "\<not> isPaused chasingTail" "\<not> isGameOver chasingTail"
    by (simp_all add: gameInv_scenarios) (simp_all add: chasingTail_def freshState_def)
  have c: "willCollide (computeNextHead (snake chasingTail) (hd (directionQueue chasingTail)))
             (snake chasingTail)"
    "computeNextHead (snake chasingTail) (hd (directionQueue chasingTail)) = last (snake chasingTail)"
    by (simp_all add: willCollide_def computeNextHead_def chasingTail_def freshState_def)
  from tick_gameOver_iff_collision [OF h, of "constDraws (3 / 4)"] c h show ?thesis
    by (auto split: option.splits sum.splits)
qed

text \<open>
  C2. A tick whose next head is on the grid and off the body prepends the head; it drops
  the tail, so that the length stays, unless the head is the food cell, where the length
  grows by one. The tick returns unless the placement of the new food never does.
\<close>

theorem tick_length:
  assumes "\<not> isPaused s" "\<not> isGameOver s" "directionQueue s \<noteq> []" "snake s \<noteq> []"
    and "\<not> willCollide (computeNextHead (snake s) (hd (directionQueue s))) (snake s)"
  shows "case tick rnd s of
           Some (Inr s') \<Rightarrow>
             (if computeNextHead (snake s) (hd (directionQueue s)) = food s
              then snake s' = computeNextHead (snake s) (hd (directionQueue s)) # snake s \<and>
                   length (snake s') = length (snake s) + 1
              else snake s' = computeNextHead (snake s) (hd (directionQueue s)) # butlast (snake s) \<and>
                   length (snake s') = length (snake s))
         | Some (Inl e) \<Rightarrow> False
         | None \<Rightarrow>
             computeNextHead (snake s) (hd (directionQueue s)) = food s \<and>
             getRandomEmptyCell rnd (randomCalls s) (food s # snake s) = None"
proof (cases "computeNextHead (snake s) (hd (directionQueue s)) = food s")
  case True
  from tick_eat [OF assms True, of rnd] True show ?thesis
    by (auto simp: maybeSpeedUp_fields updateScore_fields split: option.splits)
next
  case False
  from tick_move [OF assms False, of rnd] False assms(4) show ?thesis by simp
qed

theorem tick_length_witness:
  "\<not> isPaused foodAhead \<and> \<not> isGameOver foodAhead \<and> directionQueue foodAhead \<noteq> [] \<and>
   snake foodAhead \<noteq> [] \<and>
   \<not> willCollide (computeNextHead (snake foodAhead) (hd (directionQueue foodAhead))) (snake foodAhead) \<and>
   computeNextHead (snake foodAhead) (hd (directionQueue foodAhead)) = food foodAhead \<and>
   (case tick (constDraws (3 / 4)) foodAhead of
      Some (Inr s') \<Rightarrow>
        snake s' = [\<lparr>x = 11, y = 10\<rparr>, \<lparr>x = 10, y = 10\<rparr>, \<lparr>x = 9, y = 10\<rparr>, \<lparr>x = 8, y = 10\<rparr>] \<and>
        length (snake s') = length (snake foodAhead) + 1
    | Some (Inl e) \<Rightarrow> False
    | None \<Rightarrow> False)"
proof -
  have h: "\<not> isPaused foodAhead" "\<not> isGameOver foodAhead" "directionQueue foodAhead \<noteq> []"
    "snake foodAhead \<noteq> []"
    "\<not> willCollide (computeNextHead (snake foodAhead) (hd (directionQueue foodAhead)))
         (snake foodAhead)"
    by (simp_all add: foodAhead_def freshState_def willCollide_def computeNextHead_def inGrid_def
          GRID_SIZE_def)
  have f: "computeNextHead (snake foodAhead) (hd (directionQueue foodAhead)) = food foodAhead"
    "food foodAhead = \<lparr>x = 11, y = 10\<rparr>"
    "snake foodAhead = [\<lparr>x = 10, y = 10\<rparr>, \<lparr>x = 9, y = 10\<rparr>, \<lparr>x = 8, y = 10\<rparr>]"
    "randomCalls foodAhead = 2"
    by (simp_all add: foodAhead_def freshState_def computeNextHead_def)
  have g: "getRandomEmptyCell (constDraws (3 / 4)) 2
             [\<lparr>x = 11, y = 10\<rparr>, \<lparr>x = 10, y = 10\<rparr>, \<lparr>x = 9, y = 10\<rparr>, \<lparr>x = 8, y = 10\<rparr>] =
           Some (\<lparr>x = 15, y = 15\<rparr>, 4)"
    by (simp add: getRandomEmptyCell.simps constDraws_def randomInt_def GRID_SIZE_def
          positionsEqual_def)
  from tick_length [OF h, of "constDraws (3 / 4)"] h f g show ?thesis
    by (auto split: option.splits sum.splits)
qed

text \<open>
  C10. A tick that ends the game leaves the snake, the food, the score, the best score and
  the tick interval as they were. It sets the game-over flag, stops the clock and leaves
  the queue without its oldest entry when it had more than one; the overlay is shown
  with the game-over text, and nothing else changes.
\<close>

theorem gameOver_tick_frame:
  assumes "gameInv s" "\<not> isPaused s" "\<not> isGameOver s"
    and "willCollide (computeNextHead (snake s) (hd (directionQueue s))) (snake s)"
  shows "\<exists>s'. tick rnd s = Some (Inr s') \<and>
           snake s' = snake s \<and> food s' = food s \<and> score s' = score s \<and> best s' = best s \<and>
           tickMs s' = tickMs s \<and> isGameOver s' \<and> clockStopped s' \<and>
           directionQueue s' =
             (if length (directionQueue s) > 1 then tl (directionQueue s) else directionQueue s) \<and>
           s' = s\<lparr>directionQueue := directionQueue s', isGameOver := True, loopId := None,
                   timers := [], stateTitle := ''Game Over'',
                   stateSubtitle := ''Press Restart or Enter'', overlayHidden := False\<rparr>"
proof -
  from assms(1) have ne: "directionQueue s \<noteq> []" "snake s \<noteq> []" by (simp_all add: gameInv_def)
  have "clockSane (s\<lparr>directionQueue := consumeOne (directionQueue s)\<rparr>)"
    using gameInv_sane [OF assms(1)] by (simp add: clockSane_def)
  from gameOver_eq [OF this] tick_collide [OF assms(2,3) ne assms(4), of rnd]
  have "tick rnd s =
    Some (Inr (s\<lparr>directionQueue := consumeOne (directionQueue s), isGameOver := True,
                  loopId := None, timers := [], stateTitle := ''Game Over'',
                  stateSubtitle := ''Press Restart or Enter'', overlayHidden := False\<rparr>))"
    by simp
  then show ?thesis by (simp add: consumeOne_def clockStopped_def)
qed

theorem gameOver_tick_frame_witness:
  "gameInv atWall \<and> \<not> isPaused atWall \<and> \<not> isGameOver atWall \<and>
   willCollide (computeNextHead (snake atWall) (hd (directionQueue atWall))) (snake atWall) \<and>
   tick (constDraws (3 / 4)) atWall =
     Some (Inr (atWall\<lparr>isGameOver := True, loopId := None, timers := [],
                       stateTitle := ''Game Over'', stateSubtitle := ''Press Restart or Enter'',
                       overlayHidden := False\<rparr>))"
proof -
  have h: "gameInv atWall" "\<not> isPaused atWall" "\<not> isGameOver atWall"
    "willCollide (computeNextHead (snake atWall) (hd (directionQueue atWall))) (snake atWall)"
    by (simp_all add: gameInv_scenarios)
       (simp_all add: atWall_def freshState_def willCollide_def computeNextHead_def inGrid_def
          GRID_SIZE_def)
  have q: "directionQueue atWall = [\<lparr>x = 1, y = 0\<rparr>]" by (simp add: atWall_def freshState_def)
  from gameOver_tick_frame [OF h, of "constDraws (3 / 4)"] obtain s' where
    t: "tick (constDraws (3 / 4)) atWall = Some (Inr s')"
    and q': "directionQueue s' =
      (if length (directionQueue atWall) > 1 then tl (directionQueue atWall) else directionQueue atWall)"
    and s': "s' = atWall\<lparr>directionQueue := directionQueue s', isGameOver := True, loopId := None,
                   timers := [], stateTitle := ''Game Over'',
                   stateSubtitle := ''Press Restart or Enter'', overlayHidden := False\<rparr>"
    by blast
  from q' q have "directionQueue s' = directionQueue atWall" by simp
  with s' have "s' = atWall\<lparr>isGameOver := True, loopId := None,
                   timers := [], stateTitle := ''Game Over'',
                   stateSubtitle := ''Press Restart or Enter'', overlayHidden := False\<rparr>"
    by (metis update_same_queue)
  with t h show ?thesis by simp
qed

lemma reachable_turnUp:
  "reachable (constDraws (3 / 4)) (freshState\<lparr>directionQueue := [\<lparr>x = 1, y = 0\<rparr>, \<lparr>x = 0, y = - 1\<rparr>]\<rparr>)"
proof -
  have "dispatch (constDraws (3 / 4)) (KeyDown ''w'') freshState =
          Some (freshState\<lparr>directionQueue := [\<lparr>x = 1, y = 0\<rparr>, \<lparr>x = 0, y = - 1\<rparr>]\<rparr>)"
    by (simp add: dispatch_def keyToDir_def queueDirection_def freshState_def)
  with reachable_freshState show ?thesis by (rule reach_input)
qed

text \<open>
  C5. In every reachable state the queue is non-empty. A tick of a running game moves by
  the oldest entry of the queue, removes that entry when the queue holds more than one,
  and keeps it otherwise; the queue is non-empty afterwards.
\<close>

theorem tick_consumes_queue_head:
  assumes "reachable rnd s"
  shows "directionQueue s \<noteq> [] \<and>
         (isPaused s \<or> isGameOver s \<or>
          (case tick rnd s of
             Some (Inr s') \<Rightarrow>
               directionQueue s' =
                 (if length (directionQueue s) > 1 then tl (directionQueue s) else directionQueue s) \<and>
               directionQueue s' \<noteq> [] \<and>
               (if isGameOver s'
                then willCollide (computeNextHead (snake s) (hd (directionQueue s))) (snake s)
                else hd (snake s') = computeNextHead (snake s) (hd (directionQueue s)))
           | Some (Inl e) \<Rightarrow> False
           | None \<Rightarrow> eatsFood s))"
proof -
  from reachable_gameInv [OF assms] have inv: "gameInv s" .
  then have ne: "directionQueue s \<noteq> []" "snake s \<noteq> []" by (simp_all add: gameInv_def)
  show ?thesis
  proof (cases "isPaused s \<or> isGameOver s")
    case True
    with ne show ?thesis by auto
  next
    case False
    then have run: "\<not> isPaused s" "\<not> isGameOver s" by simp_all
    define nh where "nh = computeNextHead (snake s) (hd (directionQueue s))"
    have q: "consumeOne (directionQueue s) =
        (if length (directionQueue s) > 1 then tl (directionQueue s) else directionQueue s)"
      by (simp add: consumeOne_def)
    have q': "consumeOne (directionQueue s) \<noteq> []"
      using ne(1) by (rule consumeOne_nonempty)
    have "case tick rnd s of
             Some (Inr s') \<Rightarrow>
               directionQueue s' = consumeOne (directionQueue s) \<and>
               (if isGameOver s' then willCollide nh (snake s) else hd (snake s') = nh)
           | Some (Inl e) \<Rightarrow> False
           | None \<Rightarrow> eatsFood s"
    proof (cases "willCollide nh (snake s)")
      case True
      have "clockSane (s\<lparr>directionQueue := consumeOne (directionQueue s)\<rparr>)"
        using gameInv_sane [OF inv] by (simp add: clockSane_def)
      from gameOver_eq [OF this] tick_collide [OF run ne True [unfolded nh_def], of rnd] True
      show ?thesis by simp
    next
      case noHit: False
      show ?thesis
      proof (cases "nh = food s")
        case True
        from tick_eat [OF run ne noHit [unfolded nh_def] True [unfolded nh_def], of rnd]
          True noHit run
        show ?thesis
          by (auto simp: maybeSpeedUp_fields updateScore_fields eatsFood_def nh_def
                split: option.splits)
      next
        case False
        from tick_move [OF run ne noHit [unfolded nh_def] False [unfolded nh_def], of rnd] run
        show ?thesis by (simp add: nh_def)
      qed
    qed
    with q q' ne show ?thesis
      unfolding nh_def by (auto split: option.splits sum.splits)
  qed
qed

theorem tick_consumes_queue_head_witness:
  "reachable (constDraws (3 / 4)) (freshState\<lparr>directionQueue := [\<lparr>x = 1, y = 0\<rparr>, \<lparr>x = 0, y = - 1\<rparr>]\<rparr>) \<and>
   (case tick (constDraws (3 / 4)) (freshState\<lparr>directionQueue := [\<lparr>x = 1, y = 0\<rparr>, \<lparr>x = 0, y = - 1\<rparr>]\<rparr>) of
      Some (Inr s') \<Rightarrow>
        directionQueue s' = [\<lparr>x = 0, y = - 1\<rparr>] \<and> hd (snake s') = \<lparr>x = 11, y = 10\<rparr> \<and>
        \<not> isGameOver s'
    | Some (Inl e) \<Rightarrow> False
    | None \<Rightarrow> False)"
proof -
  define s where "s = freshState\<lparr>directionQueue := [\<lparr>x = 1, y = 0\<rparr>, \<lparr>x = 0, y = - 1\<rparr>]\<rparr>"
  have r: "reachable (constDraws (3 / 4)) s" unfolding s_def by (rule reachable_turnUp)
  have f: "\<not> isPaused s" "\<not> isGameOver s" "directionQueue s = [\<lparr>x = 1, y = 0\<rparr>, \<lparr>x = 0, y = - 1\<rparr>]"
    "computeNextHead (snake s) (hd (directionQueue s)) = \<lparr>x = 11, y = 10\<rparr>"
    "\<not> willCollide (computeNextHead (snake s) (hd (directionQueue s))) (snake s)"
    "\<not> eatsFood s"
    by (simp_all add: s_def freshState_def computeNextHead_def willCollide_def inGrid_def
          GRID_SIZE_def eatsFood_def)
  from tick_consumes_queue_head [OF r] f r show ?thesis
    unfolding s_def [symmetric] by (auto split: option.splits sum.splits if_splits)
qed


lemma withinSpeeds_aboveFloor: "withinSpeeds e u \<Longrightarrow> aboveFloor e u"
  by (cases e; cases u) simp_all








lemma sweepDraws_unit: "unitDraws sweepDraws"
  by (simp add: unitDraws_def sweepDraws_def)

lemma sampleCell_sweepDraws:
  "sampleCell sweepDraws (2 * n) = \<lparr>x = int (n mod 20), y = int (n div 20 mod 20)\<rparr>"
  by (simp add: sampleCell_def sweepDraws_def randomInt_def GRID_SIZE_def)

lemma sweepDraws_fair: "fairDraws sweepDraws 0"
  unfolding fairDraws_def
proof (intro allI impI)
  fix c assume "inGrid c"
  then have b: "0 \<le> x c" "x c < 20" "0 \<le> y c" "y c < 20"
    by (simp_all add: inGrid_def GRID_SIZE_def)
  define n where "n = nat (x c) + 20 * nat (y c)"
  have "n mod 20 = nat (x c)" "n div 20 mod 20 = nat (y c)"
    using b by (simp_all add: n_def)
  with b have "sampleCell sweepDraws (0 + 2 * n) = c"
    by (simp add: sampleCell_sweepDraws)
  then show "\<exists>n. sampleCell sweepDraws (0 + 2 * n) = c" ..
qed

text \<open>
  C7. In every reachable state the food is on no cell of the snake. The placement returns
  exactly when some pair of draws from the current one on gives a cell outside the
  excluded list; so it returns, with draws in the unit interval that give every cell of
  the grid sooner or later, whenever a cell of the grid is not excluded. The cell it
  returns is not excluded and, the draws being in the unit interval, on the grid. A tick
  that eats returns with the food on such a cell, chosen against the snake as it is
  after the move, unless the placement never returns.
\<close>

theorem food_never_on_snake:
  "(reachable rnd s \<longrightarrow> food s \<notin> set (snake s)) \<and>
   ((\<exists>r. getRandomEmptyCell rnd k cells = Some r) \<longleftrightarrow>
    (\<exists>n. sampleCell rnd (k + 2 * n) \<notin> set cells)) \<and>
   (unitDraws rnd \<longrightarrow> fairDraws rnd k \<longrightarrow> (\<exists>c. inGrid c \<and> c \<notin> set cells) \<longrightarrow>
      (\<exists>c k'. getRandomEmptyCell rnd k cells = Some (c, k') \<and> inGrid c \<and> c \<notin> set cells)) \<and>
   (\<forall>c k'. getRandomEmptyCell rnd k cells = Some (c, k') \<longrightarrow>
      c \<notin> set cells \<and> (unitDraws rnd \<longrightarrow> inGrid c)) \<and>
   (gameInv s \<longrightarrow> eatsFood s \<longrightarrow>
      (case tick rnd s of
         Some (Inr s') \<Rightarrow>
           snake s' = food s # snake s \<and> food s' \<notin> set (snake s') \<and>
           (unitDraws rnd \<longrightarrow> inGrid (food s')) \<and>
           getRandomEmptyCell rnd (randomCalls s) (snake s') = Some (food s', randomCalls s')
       | Some (Inl e) \<Rightarrow> False
       | None \<Rightarrow> getRandomEmptyCell rnd (randomCalls s) (food s # snake s) = None))"
proof (intro conjI impI allI)
  assume "reachable rnd s"
  from reachable_gameInv [OF this] show "food s \<notin> set (snake s)" by (simp add: gameInv_def)
next
  show "(\<exists>r. getRandomEmptyCell rnd k cells = Some r) \<longleftrightarrow>
        (\<exists>n. sampleCell rnd (k + 2 * n) \<notin> set cells)"
    using getRandomEmptyCell_Some [of rnd k cells] getRandomEmptyCell_returns [of rnd k _ cells]
    by blast
next
  assume u: "unitDraws rnd" and f: "fairDraws rnd k" and "\<exists>c. inGrid c \<and> c \<notin> set cells"
  then obtain c where "inGrid c" "c \<notin> set cells" by blast
  with f obtain n where "sampleCell rnd (k + 2 * n) \<notin> set cells"
    unfolding fairDraws_def by metis
  from getRandomEmptyCell_returns [OF this] obtain r where
    r: "getRandomEmptyCell rnd k cells = Some r" by blast
  from getRandomEmptyCell_Some [OF r] obtain m where
    "r = (sampleCell rnd (k + 2 * m), k + 2 * m + 2)" "sampleCell rnd (k + 2 * m) \<notin> set cells"
    by blast
  with r sampleCell_inGrid [OF u, of "k + 2 * m"]
  show "\<exists>c k'. getRandomEmptyCell rnd k cells = Some (c, k') \<and> inGrid c \<and> c \<notin> set cells"
    by blast
next
  fix c k'
  assume "getRandomEmptyCell rnd k cells = Some (c, k')"
  from getRandomEmptyCell_Some [OF this] obtain n where
    c: "c = sampleCell rnd (k + 2 * n)" and free: "c \<notin> set cells" by auto
  from free show "c \<notin> set cells" .
  assume "unitDraws rnd"
  then show "inGrid c" unfolding c by (rule sampleCell_inGrid)
next
  assume inv: "gameInv s" and e: "eatsFood s"
  from inv have ne: "directionQueue s \<noteq> []" "snake s \<noteq> []" by (simp_all add: gameInv_def)
  from e have run: "\<not> isPaused s" "\<not> isGameOver s"
    and noHit: "\<not> willCollide (computeNextHead (snake s) (hd (directionQueue s))) (snake s)"
    and eat: "computeNextHead (snake s) (hd (directionQueue s)) = food s"
    unfolding eatsFood_def by blast+
  note t = tick_eat [OF run ne noHit eat, of rnd]
  show "case tick rnd s of
         Some (Inr s') \<Rightarrow>
           snake s' = food s # snake s \<and> food s' \<notin> set (snake s') \<and>
           (unitDraws rnd \<longrightarrow> inGrid (food s')) \<and>
           getRandomEmptyCell rnd (randomCalls s) (snake s') = Some (food s', randomCalls s')
       | Some (Inl e) \<Rightarrow> False
       | None \<Rightarrow> getRandomEmptyCell rnd (randomCalls s) (food s # snake s) = None"
  proof (cases "getRandomEmptyCell rnd (randomCalls s) (food s # snake s)")
    case None
    with t show ?thesis by simp
  next
    case (Some r)
    obtain cell k where r: "r = (cell, k)" by (cases r)
    from getRandomEmptyCell_Some [OF Some] r obtain n where
      c: "cell = sampleCell rnd (randomCalls s + 2 * n)" and free: "cell \<notin> set (food s # snake s)"
      by auto
    have "unitDraws rnd \<longrightarrow> inGrid cell" unfolding c by (simp add: sampleCell_inGrid)
    with t Some r free show ?thesis
      by (simp add: maybeSpeedUp_fields updateScore_fields)
  qed
qed

theorem food_never_on_snake_witness:
  "reachable (constDraws (3 / 4)) freshState \<and> food freshState \<notin> set (snake freshState) \<and>
   unitDraws sweepDraws \<and> fairDraws sweepDraws 0 \<and>
   inGrid \<lparr>x = 7, y = 3\<rparr> \<and> \<lparr>x = 7, y = 3\<rparr> \<notin> set [\<lparr>x = 0, y = 0\<rparr>, \<lparr>x = 1, y = 0\<rparr>] \<and>
   getRandomEmptyCell sweepDraws 0 [\<lparr>x = 0, y = 0\<rparr>, \<lparr>x = 1, y = 0\<rparr>] = Some (\<lparr>x = 2, y = 0\<rparr>, 6) \<and>
   unitDraws (constDraws (3 / 4)) \<and> gameInv foodAhead \<and> eatsFood foodAhead \<and>
   (case tick (constDraws (3 / 4)) foodAhead of
      Some (Inr s') \<Rightarrow>
        food s' = \<lparr>x = 15, y = 15\<rparr> \<and> food s' \<notin> set (snake s') \<and> inGrid (food s') \<and>
        snake s' = [\<lparr>x = 11, y = 10\<rparr>, \<lparr>x = 10, y = 10\<rparr>, \<lparr>x = 9, y = 10\<rparr>, \<lparr>x = 8, y = 10\<rparr>]
    | Some (Inl e) \<Rightarrow> False
    | None \<Rightarrow> False)"
proof -
  let ?rnd = "constDraws (3 / 4)"
  let ?cells = "food foodAhead # snake foodAhead"
  let ?busy = "[\<lparr>x = 0, y = 0\<rparr>, \<lparr>x = 1, y = 0\<rparr>]"
  have u: "unitDraws ?rnd" by (simp add: unitDraws_def constDraws_def)
  have inv: "gameInv foodAhead" by (rule gameInv_scenarios)
  have e: "eatsFood foodAhead"
    by (simp add: eatsFood_def foodAhead_def freshState_def willCollide_def
          computeNextHead_def inGrid_def GRID_SIZE_def)
  have f: "food foodAhead = \<lparr>x = 11, y = 10\<rparr>" "randomCalls foodAhead = 2"
    "snake foodAhead = [\<lparr>x = 10, y = 10\<rparr>, \<lparr>x = 9, y = 10\<rparr>, \<lparr>x = 8, y = 10\<rparr>]"
    by (simp_all add: foodAhead_def freshState_def)
  have c: "inGrid \<lparr>x = 7, y = 3\<rparr>" "\<lparr>x = 7, y = 3\<rparr> \<notin> set ?busy"
    by (simp_all add: inGrid_def GRID_SIZE_def)
  note inst = food_never_on_snake [of ?rnd freshState 2 ?cells]
    food_never_on_snake [of ?rnd foodAhead 2 ?cells]
    food_never_on_snake [of sweepDraws freshState 0 ?busy]
  from inst(1) reachable_freshState have a: "food freshState \<notin> set (snake freshState)" by blast
  from inst(3) sweepDraws_unit sweepDraws_fair c
  have "\<exists>c k'. getRandomEmptyCell sweepDraws 0 ?busy = Some (c, k') \<and> inGrid c \<and> c \<notin> set ?busy"
    by blast
  have sw: "getRandomEmptyCell sweepDraws 0 ?busy = Some (\<lparr>x = 2, y = 0\<rparr>, 6)"
    by (simp add: getRandomEmptyCell.simps sweepDraws_def randomInt_def GRID_SIZE_def
          positionsEqual_def)
  have g: "getRandomEmptyCell ?rnd 2 ?cells = Some (\<lparr>x = 15, y = 15\<rparr>, 4)"
    by (simp add: f getRandomEmptyCell.simps constDraws_def randomInt_def GRID_SIZE_def
          positionsEqual_def)
  from inst(2) inv e u
  have "case tick ?rnd foodAhead of
         Some (Inr s') \<Rightarrow>
           snake s' = food foodAhead # snake foodAhead \<and> food s' \<notin> set (snake s') \<and>
           inGrid (food s') \<and>
           getRandomEmptyCell ?rnd (randomCalls foodAhead) (snake s') = Some (food s', randomCalls s')
       | Some (Inl e) \<Rightarrow> False
       | None \<Rightarrow> getRandomEmptyCell ?rnd (randomCalls foodAhead) ?cells = None"
    by (auto split: option.splits sum.splits)
  with g have "case tick ?rnd foodAhead of
      Some (Inr s') \<Rightarrow>
        food s' = \<lparr>x = 15, y = 15\<rparr> \<and> food s' \<notin> set (snake s') \<and> inGrid (food s') \<and>
        snake s' = [\<lparr>x = 11, y = 10\<rparr>, \<lparr>x = 10, y = 10\<rparr>, \<lparr>x = 9, y = 10\<rparr>, \<lparr>x = 8, y = 10\<rparr>]
    | Some (Inl e) \<Rightarrow> False
    | None \<Rightarrow> False"
    by (auto simp: f split: option.splits sum.splits)
  with a u inv e reachable_freshState sweepDraws_unit sweepDraws_fair c sw show ?thesis by simp
qed

text \<open>
  C4. queueDirection changes the queue only: it appends the direction, unless the queue
  is non-empty and the direction cancels its last entry, where nothing changes. It keeps
  the queue free of cancelling neighbours, and every reachable queue is free of them.
\<close>

theorem queueDirection_no_reversal:
  "queueDirection d s =
     s\<lparr>directionQueue :=
         (if directionQueue s \<noteq> [] \<and> x (last (directionQueue s)) + x d = 0 \<and>
             y (last (directionQueue s)) + y d = 0
          then directionQueue s else directionQueue s @ [d])\<rparr> \<and>
   (noReversal (directionQueue s) \<longrightarrow> noReversal (directionQueue (queueDirection d s))) \<and>
   (reachable rnd s \<longrightarrow> noReversal (directionQueue s))"
proof (intro conjI impI)
  show "queueDirection d s =
     s\<lparr>directionQueue :=
         (if directionQueue s \<noteq> [] \<and> x (last (directionQueue s)) + x d = 0 \<and>
             y (last (directionQueue s)) + y d = 0
          then directionQueue s else directionQueue s @ [d])\<rparr>"
    by (simp add: queueDirection_def Let_def)
next
  assume "noReversal (directionQueue s)"
  then show "noReversal (directionQueue (queueDirection d s))"
    by (auto simp: queueDirection_def Let_def noReversal_snoc)
next
  assume "reachable rnd s"
  from reachable_gameInv [OF this] show "noReversal (directionQueue s)" by (simp add: gameInv_def)
qed

theorem queueDirection_no_reversal_witness:
  "noReversal (directionQueue freshState) \<and> reachable (constDraws (3 / 4)) freshState \<and>
   directionQueue freshState = [\<lparr>x = 1, y = 0\<rparr>] \<and>
   queueDirection \<lparr>x = - 1, y = 0\<rparr> freshState = freshState \<and>
   directionQueue (queueDirection \<lparr>x = 0, y = 1\<rparr> freshState) = [\<lparr>x = 1, y = 0\<rparr>, \<lparr>x = 0, y = 1\<rparr>] \<and>
   noReversal (directionQueue (queueDirection \<lparr>x = 0, y = 1\<rparr> freshState))"
proof -
  let ?rnd = "constDraws (3 / 4)"
  have q: "directionQueue freshState = [\<lparr>x = 1, y = 0\<rparr>]" by (simp add: freshState_def)
  note inst = queueDirection_no_reversal [of "\<lparr>x = - 1, y = 0\<rparr>" freshState ?rnd]
    queueDirection_no_reversal [of "\<lparr>x = 0, y = 1\<rparr>" freshState ?rnd]
  from inst(1) reachable_freshState have n: "noReversal (directionQueue freshState)" by blast
  from inst(1) have a: "queueDirection \<lparr>x = - 1, y = 0\<rparr> freshState = freshState"
    by (simp add: q update_same_queue)
  from inst(2) have b: "directionQueue (queueDirection \<lparr>x = 0, y = 1\<rparr> freshState) =
      [\<lparr>x = 1, y = 0\<rparr>, \<lparr>x = 0, y = 1\<rparr>]"
    by (simp add: q)
  from inst(2) n have c: "noReversal (directionQueue (queueDirection \<lparr>x = 0, y = 1\<rparr> freshState))"
    by blast
  from n a b c q reachable_freshState show ?thesis by simp
qed

lemma tick_advances:
  assumes "\<not> isPaused s" "\<not> isGameOver s" "directionQueue s \<noteq> []" "snake s \<noteq> []"
    and "\<not> willCollide (computeNextHead (snake s) (hd (directionQueue s))) (snake s)"
  shows "case tick rnd s of
           Some (Inr t) \<Rightarrow>
             hd (snake t) = computeNextHead (snake s) (hd (directionQueue s)) \<and>
             \<not> isPaused t \<and> \<not> isGameOver t
         | Some (Inl e) \<Rightarrow> False
         | None \<Rightarrow> computeNextHead (snake s) (hd (directionQueue s)) = food s"
proof (cases "computeNextHead (snake s) (hd (directionQueue s)) = food s")
  case True
  from tick_eat [OF assms True, of rnd] True assms(1,2) show ?thesis
    by (auto simp: maybeSpeedUp_fields updateScore_fields split: option.splits)
next
  case False
  from tick_move [OF assms False, of rnd] assms(1,2) show ?thesis by simp
qed

text \<open>
  C3, as the code has it. A restart whose food placement returns (some pair of draws
  gives a cell off the new snake) leaves the game running, not paused: both flags are
  off, the clock is armed at the initial interval of the difficulty and the overlay is
  hidden; only the panel text reads Paused. The snake, the queue, the score, the interval
  and the food are made anew; the difficulty stays, and so does the best score (a
  negative one rises to 0). The next tick moves the head to (11,10) with no resume in
  between.
\<close>

theorem resetGame_starts_running:
  assumes "clockSane s"
    and "sampleCell rnd (randomCalls s + 2 * n) \<notin>
           set [\<lparr>x = 10, y = 10\<rparr>, \<lparr>x = 9, y = 10\<rparr>, \<lparr>x = 8, y = 10\<rparr>]"
  shows "\<exists>s'. resetGame rnd s = Some s' \<and>
           \<not> isPaused s' \<and> \<not> isGameOver s' \<and> clockArmed s' \<and> overlayHidden s' \<and>
           stateTitle s' = ''Paused'' \<and>
           snake s' = [\<lparr>x = 10, y = 10\<rparr>, \<lparr>x = 9, y = 10\<rparr>, \<lparr>x = 8, y = 10\<rparr>] \<and>
           directionQueue s' = [\<lparr>x = 1, y = 0\<rparr>] \<and> score s' = 0 \<and>
           tickMs s' = initialSpeedOf (difficulty s) \<and> food s' \<notin> set (snake s') \<and>
           difficulty s' = difficulty s \<and> best s' = max 0 (best s) \<and>
           (case tick rnd s' of
              Some (Inr t) \<Rightarrow> hd (snake t) = \<lparr>x = 11, y = 10\<rparr> \<and> \<not> isGameOver t
            | Some (Inl e) \<Rightarrow> False
            | None \<Rightarrow> food s' = \<lparr>x = 11, y = 10\<rparr>)"
proof -
  let ?body = "[\<lparr>x = 10, y = 10\<rparr>, \<lparr>x = 9, y = 10\<rparr>, \<lparr>x = 8, y = 10\<rparr>]"
  from getRandomEmptyCell_returns [OF assms(2)] obtain r where
    r: "getRandomEmptyCell rnd (randomCalls s) ?body = Some r" by blast
  obtain cell k where rk: "r = (cell, k)" by (cases r)
  from getRandomEmptyCell_Some [OF r] rk have free: "cell \<notin> set ?body" by auto
  define s' where "s' =
     s\<lparr>snake := ?body, directionQueue := [\<lparr>x = 1, y = 0\<rparr>], food := cell, randomCalls := k,
       score := 0, best := (if 0 > best s then 0 else best s),
       tickMs := initialSpeedOf (difficulty s), isPaused := False, isGameOver := False,
       loopId := Some (timerCount s),
       timers := [(timerCount s, initialSpeedOf (difficulty s))],
       timerCount := Suc (timerCount s), overlayHidden := True,
       stateTitle := ''Paused'', stateSubtitle := ''Press Space or Tap to resume''\<rparr>"
  have ret: "resetGame rnd s = Some s'"
    by (simp add: resetGame_eq r rk s'_def sane_filter [OF assms(1)])
  have f: "snake s' = ?body" "directionQueue s' = [\<lparr>x = 1, y = 0\<rparr>]" "food s' = cell"
    "\<not> isPaused s'" "\<not> isGameOver s'" "score s' = 0" "tickMs s' = initialSpeedOf (difficulty s)"
    "difficulty s' = difficulty s" "best s' = max 0 (best s)" "overlayHidden s'"
    "stateTitle s' = ''Paused''" "clockArmed s'"
    by (simp_all add: s'_def clockArmed_def)
  have ne: "directionQueue s' \<noteq> []" "snake s' \<noteq> []" by (simp_all add: f)
  have nh: "computeNextHead (snake s') (hd (directionQueue s')) = \<lparr>x = 11, y = 10\<rparr>"
    by (simp add: f computeNextHead_def)
  have noHit: "\<not> willCollide (computeNextHead (snake s') (hd (directionQueue s'))) (snake s')"
    by (simp add: nh) (simp add: f willCollide_def inGrid_def GRID_SIZE_def)
  from tick_advances [OF f(4,5) ne noHit, of rnd]
  have "case tick rnd s' of
          Some (Inr t) \<Rightarrow> hd (snake t) = \<lparr>x = 11, y = 10\<rparr> \<and> \<not> isGameOver t
        | Some (Inl e) \<Rightarrow> False
        | None \<Rightarrow> food s' = \<lparr>x = 11, y = 10\<rparr>"
    by (auto simp: nh split: option.splits sum.splits)
  with ret f free show ?thesis by (intro exI [of _ s']) simp
qed

theorem resetGame_starts_running_witness:
  "clockSane crashed \<and>
   sampleCell (constDraws (3 / 4)) (randomCalls crashed + 2 * 0) \<notin>
     set [\<lparr>x = 10, y = 10\<rparr>, \<lparr>x = 9, y = 10\<rparr>, \<lparr>x = 8, y = 10\<rparr>] \<and>
   resetGame (constDraws (3 / 4)) crashed = Some restarted \<and>
   \<not> isPaused restarted \<and> clockArmed restarted \<and> score restarted = 0 \<and>
   tickMs restarted = initialSpeedOf (difficulty crashed)"
proof -
  let ?rnd = "constDraws (3 / 4)"
  have sane: "clockSane crashed"
    by (simp add: clockSane_def crashed_def atWall_def freshState_def)
  have free: "sampleCell ?rnd (randomCalls crashed + 2 * 0) \<notin>
     set [\<lparr>x = 10, y = 10\<rparr>, \<lparr>x = 9, y = 10\<rparr>, \<lparr>x = 8, y = 10\<rparr>]"
    by (simp add: sampleCell_def constDraws_def randomInt_def GRID_SIZE_def)
  have ret: "resetGame ?rnd crashed = Some restarted"
    by (simp add: resetGame_eq crashed_def atWall_def freshState_def restarted_def
          getRandomEmptyCell.simps constDraws_def randomInt_def GRID_SIZE_def positionsEqual_def)
  from resetGame_starts_running [OF sane free] ret
  have "\<not> isPaused restarted \<and> clockArmed restarted \<and> score restarted = 0 \<and>
        tickMs restarted = initialSpeedOf (difficulty crashed)"
    by auto
  with sane free ret show ?thesis by simp
qed

text \<open>
  The claim as written fails: after the restart of a crashed game the paused flag is
  off and the very next tick moves the snake.
\<close>

theorem resetGame_paused_counterexample:
  "restart (constDraws (3 / 4)) crashed = Some restarted \<and>
   isPaused restarted = False \<and> timers restarted = [(1, Number 160)] \<and>
   tick (constDraws (3 / 4)) restarted =
     Some (Inr (restarted\<lparr>snake := [\<lparr>x = 11, y = 10\<rparr>, \<lparr>x = 10, y = 10\<rparr>, \<lparr>x = 9, y = 10\<rparr>]\<rparr>))"
  by (simp add: restart_def resetGame_eq crashed_def atWall_def freshState_def restarted_def
        getRandomEmptyCell.simps constDraws_def randomInt_def GRID_SIZE_def positionsEqual_def
        tick_def Let_def)

text \<open>
  C8, as the code has it. resume on a game that is not paused, or is over, changes
  nothing. The pause control is a toggle: on a game that is over it changes nothing; on
  a paused game it clears the flag, hides the overlay and arms the one clock, which is
  what resume does there as well.
\<close>

theorem resume_noop_pause_toggles:
  "(\<not> isPaused s \<or> isGameOver s \<longrightarrow> resume s = s) \<and>
   (isGameOver s \<longrightarrow> togglePause s = s) \<and>
   (gameInv s \<longrightarrow> isPaused s \<longrightarrow> \<not> isGameOver s \<longrightarrow>
      togglePause s =
        s\<lparr>isPaused := False, overlayHidden := True, loopId := Some (timerCount s),
          timers := [(timerCount s, tickMs s)], timerCount := Suc (timerCount s)\<rparr> \<and>
      clockArmed (togglePause s) \<and> resume s = togglePause s)"
proof (intro conjI impI)
  assume "\<not> isPaused s \<or> isGameOver s"
  then show "resume s = s" by (auto simp: resume_def)
next
  assume "isGameOver s"
  then show "togglePause s = s" by (simp add: togglePause_def)
next
  assume inv: "gameInv s" and p: "isPaused s" and g: "\<not> isGameOver s"
  then have "clockStopped (hideOverlay (s\<lparr>isPaused := False\<rparr>))"
    by (simp add: gameInv_def clockStopped_def hideOverlay_def)
  from startLoop_stopped_eq [OF this] p g
  show eq: "togglePause s =
        s\<lparr>isPaused := False, overlayHidden := True, loopId := Some (timerCount s),
          timers := [(timerCount s, tickMs s)], timerCount := Suc (timerCount s)\<rparr>"
    by (simp add: togglePause_def Let_def hideOverlay_def)
  show "clockArmed (togglePause s)" unfolding eq by (simp add: clockArmed_def)
  from p g show "resume s = togglePause s" by (simp add: resume_def)
qed

theorem resume_noop_pause_toggles_witness:
  "\<not> isPaused freshState \<and> resume freshState = freshState \<and>
   isGameOver crashed \<and> togglePause crashed = crashed \<and> resume crashed = crashed \<and>
   gameInv pausedState \<and> isPaused pausedState \<and> \<not> isGameOver pausedState \<and>
   togglePause pausedState =
     pausedState\<lparr>isPaused := False, overlayHidden := True, loopId := Some 1,
       timers := [(1, Number 160)], timerCount := 2\<rparr> \<and>
   clockArmed (togglePause pausedState)"
proof -
  have a: "\<not> isPaused freshState" by (simp add: freshState_def)
  have b: "isGameOver crashed" by (simp add: crashed_def)
  have c: "gameInv pausedState" "isPaused pausedState" "\<not> isGameOver pausedState"
    "timerCount pausedState = 1" "tickMs pausedState = Number 160"
    by (simp_all add: gameInv_scenarios) (simp_all add: pausedState_def freshState_def)
  note inst = resume_noop_pause_toggles [of freshState] resume_noop_pause_toggles [of crashed]
    resume_noop_pause_toggles [of pausedState]
  from inst(1) a have 1: "resume freshState = freshState" by blast
  from inst(2) b have 2: "togglePause crashed = crashed" "resume crashed = crashed" by blast+
  from inst(3) c(1-3) have 3: "togglePause pausedState =
     pausedState\<lparr>isPaused := False, overlayHidden := True, loopId := Some (timerCount pausedState),
       timers := [(timerCount pausedState, tickMs pausedState)],
       timerCount := Suc (timerCount pausedState)\<rparr>"
    and 4: "clockArmed (togglePause pausedState)" by blast+
  from 3 have "togglePause pausedState =
     pausedState\<lparr>isPaused := False, overlayHidden := True, loopId := Some 1,
       timers := [(1, Number 160)], timerCount := 2\<rparr>"
    by (simp add: c)
  with a b c 1 2 4 show ?thesis by simp
qed

text \<open>
  The claim as written fails: the pause control on a paused game is not a no-op; it
  clears the flag and starts a clock.
\<close>

theorem pause_while_paused_counterexample:
  "isPaused pausedState \<and> isGameOver pausedState = False \<and> timers pausedState = [] \<and>
   togglePause pausedState \<noteq> pausedState \<and>
   isPaused (togglePause pausedState) = False \<and>
   timers (togglePause pausedState) = [(1, Number 160)]"
proof -
  have "isPaused (togglePause pausedState) = False"
    "timers (togglePause pausedState) = [(1, Number 160)]"
    "isPaused pausedState" "isGameOver pausedState = False" "timers pausedState = []"
    by (simp_all add: togglePause_def Let_def pausedState_def freshState_def hideOverlay_def
          startLoop_def setInterval_def)
  then show ?thesis by auto
qed

lemma inPlay_reachable: "inPlay rnd s \<Longrightarrow> reachable rnd s"
  by (induction rule: inPlay.induct) (auto intro: reachable.intros)

lemma keyToDir_unit: "keyToDir key = Some d \<Longrightarrow> unitVector d"
  by (auto simp: keyToDir_def unitVector_def split: if_splits)

lemma dirStringToVector_unit:
  "name = ''up'' \<or> name = ''down'' \<or> name = ''left'' \<or> name = ''right'' \<Longrightarrow>
   unitVector (dirStringToVector name)"
  by (auto simp: dirStringToVector_def unitVector_def)

lemma tick_queue:
  assumes inv: "gameInv s" and t: "tick rnd s = Some (Inr s')"
  shows "directionQueue s' = directionQueue s \<or> directionQueue s' = consumeOne (directionQueue s)"
proof (cases "isPaused s \<or> isGameOver s")
  case True
  with t show ?thesis by (simp add: tick_idle)
next
  case False
  then have run: "\<not> isPaused s" "\<not> isGameOver s" by simp_all
  from inv have ne: "directionQueue s \<noteq> []" "snake s \<noteq> []" by (simp_all add: gameInv_def)
  define nh where "nh = computeNextHead (snake s) (hd (directionQueue s))"
  show ?thesis
  proof (cases "willCollide nh (snake s)")
    case True
    have "clockSane (s\<lparr>directionQueue := consumeOne (directionQueue s)\<rparr>)"
      using gameInv_sane [OF inv] by (simp add: clockSane_def)
    from gameOver_eq [OF this] tick_collide [OF run ne True [unfolded nh_def], of rnd] t
    show ?thesis by auto
  next
    case noHit: False
    show ?thesis
    proof (cases "nh = food s")
      case True
      from tick_eat [OF run ne noHit [unfolded nh_def] True [unfolded nh_def], of rnd] t
      show ?thesis
        by (auto simp: maybeSpeedUp_fields updateScore_fields split: option.splits)
    next
      case False
      from tick_move [OF run ne noHit [unfolded nh_def] False [unfolded nh_def], of rnd] t
      show ?thesis by auto
    qed
  qed
qed

lemma set_consumeOne: "set (consumeOne q) \<subseteq> set q"
  by (cases q) (auto simp: consumeOne_def)

lemma queueDirection_queue:
  "directionQueue (queueDirection d s) = directionQueue s \<or>
   directionQueue (queueDirection d s) = directionQueue s @ [d]"
  by (simp add: queueDirection_def Let_def)

lemma resetGame_queue: "resetGame rnd s = Some s' \<Longrightarrow> directionQueue s' = [\<lparr>x = 1, y = 0\<rparr>]"
  by (auto simp: resetGame_eq split: option.splits)

lemma dispatch_queue:
  assumes "specInput ev" "dispatch rnd ev s = Some s'"
  shows "directionQueue s' = directionQueue s \<or>
         (\<exists>d. unitVector d \<and> directionQueue s' = directionQueue s @ [d]) \<or>
         directionQueue s' = [\<lparr>x = 1, y = 0\<rparr>]"
proof -
  have tp: "directionQueue (togglePause s) = directionQueue s"
    by (simp add: togglePause_def Let_def showOverlay_def updatePanel_def hideOverlay_def
          startLoop_eq stopLoop_def clearInterval_def split: option.splits)
  then have rs: "directionQueue (resume s) = directionQueue s" by (simp add: resume_def)
  show ?thesis
  proof (cases ev)
    case (KeyDown key)
    with assms(2) tp keyToDir_unit [of key] queueDirection_queue show ?thesis
      by (auto simp: dispatch_def split: if_splits option.splits)
  next
    case (DpadClick attr)
    with assms tp dirStringToVector_unit queueDirection_queue show ?thesis
      by (cases attr) (auto simp: dispatch_def split: if_splits)
  qed (use assms(2) tp rs in \<open>auto simp: dispatch_def restart_def dest: resetGame_queue
         split: if_splits\<close>)
qed

lemma inPlay_unit_queue: "inPlay rnd s \<Longrightarrow> list_all unitVector (directionQueue s)"
proof (induction rule: inPlay.induct)
  case (play_init bestFromStorage savedDiff s)
  then have "directionQueue s = [\<lparr>x = 1, y = 0\<rparr>]"
    unfolding init_def by (rule resetGame_queue)
  then show ?case by (simp add: unitVector_def)
next
  case (play_tick s s')
  from tick_queue [OF reachable_gameInv [OF inPlay_reachable [OF play_tick.hyps(1)]]
      play_tick.hyps(3)] play_tick.IH set_consumeOne [of "directionQueue s"]
  show ?case by (auto simp: list_all_iff)
next
  case (play_input s ev s')
  from dispatch_queue [OF play_input.hyps(2,3)] play_input.IH show ?case
    by (auto simp: unitVector_def)
qed

text \<open>
  C9. A key gives a unit vector or nothing, and each of the D-pad names up, down, left and
  right gives a unit vector. In play with these inputs (any key, any pause, resume,
  restart and difficulty event, D-pad buttons with one of the four names or none) every
  entry of the queue is one of the four unit vectors, the zero vector is not in the
  queue, and a handler leaves the queue as it was, appends one unit vector to it, or
  makes it anew as the single entry (1,0).
\<close>

theorem queue_holds_unit_vectors:
  "(\<forall>key d. keyToDir key = Some d \<longrightarrow> unitVector d) \<and>
   (\<forall>name. name = ''up'' \<or> name = ''down'' \<or> name = ''left'' \<or> name = ''right'' \<longrightarrow>
      unitVector (dirStringToVector name)) \<and>
   (inPlay rnd s \<longrightarrow>
      list_all unitVector (directionQueue s) \<and> \<lparr>x = 0, y = 0\<rparr> \<notin> set (directionQueue s)) \<and>
   (\<forall>ev s'. specInput ev \<longrightarrow> dispatch rnd ev s = Some s' \<longrightarrow>
      directionQueue s' = directionQueue s \<or>
      (\<exists>d. unitVector d \<and> directionQueue s' = directionQueue s @ [d]) \<or>
      directionQueue s' = [\<lparr>x = 1, y = 0\<rparr>])"
proof (intro conjI allI impI)
  fix key d assume "keyToDir key = Some d"
  then show "unitVector d" by (rule keyToDir_unit)
next
  fix name assume "name = ''up'' \<or> name = ''down'' \<or> name = ''left'' \<or> name = ''right''"
  then show "unitVector (dirStringToVector name)" by (rule dirStringToVector_unit)
next
  assume "inPlay rnd s"
  then show u: "list_all unitVector (directionQueue s)" by (rule inPlay_unit_queue)
  have "\<not> unitVector \<lparr>x = 0, y = 0\<rparr>" by (simp add: unitVector_def)
  with u show "\<lparr>x = 0, y = 0\<rparr> \<notin> set (directionQueue s)" by (auto simp: list_all_iff)
next
  fix ev s' assume "specInput ev" "dispatch rnd ev s = Some s'"
  then show "directionQueue s' = directionQueue s \<or>
      (\<exists>d. unitVector d \<and> directionQueue s' = directionQueue s @ [d]) \<or>
      directionQueue s' = [\<lparr>x = 1, y = 0\<rparr>]"
    by (rule dispatch_queue)
qed

theorem queue_holds_unit_vectors_witness:
  "keyToDir ''arrowleft'' = Some \<lparr>x = - 1, y = 0\<rparr> \<and> unitVector \<lparr>x = - 1, y = 0\<rparr> \<and>
   unitVector (dirStringToVector ''up'') \<and>
   specInput (DpadClick (Some ''up'')) \<and>
   dispatch (constDraws (3 / 4)) (DpadClick (Some ''up'')) freshState =
     Some (freshState\<lparr>directionQueue := [\<lparr>x = 1, y = 0\<rparr>, \<lparr>x = 0, y = - 1\<rparr>]\<rparr>) \<and>
   inPlay (constDraws (3 / 4)) (freshState\<lparr>directionQueue := [\<lparr>x = 1, y = 0\<rparr>, \<lparr>x = 0, y = - 1\<rparr>]\<rparr>) \<and>
   list_all unitVector [\<lparr>x = 1, y = 0\<rparr>, \<lparr>x = 0, y = - 1\<rparr>]"
proof -
  let ?rnd = "constDraws (3 / 4)"
  let ?s = "freshState\<lparr>directionQueue := [\<lparr>x = 1, y = 0\<rparr>, \<lparr>x = 0, y = - 1\<rparr>]\<rparr>"
  have i: "init ?rnd 0 ''normal'' = Some freshState"
    by (simp add: init_def resetGame_eq moduleState_def setDifficultyFromKey_def DIFFICULTIES_def
          getRandomEmptyCell.simps constDraws_def randomInt_def GRID_SIZE_def positionsEqual_def
          freshState_def)
  have k: "keyToDir ''arrowleft'' = Some \<lparr>x = - 1, y = 0\<rparr>" by (simp add: keyToDir_def)
  have sp: "specInput (DpadClick (Some ''up''))" by simp
  have d: "dispatch ?rnd (DpadClick (Some ''up'')) freshState = Some ?s"
    by (simp add: dispatch_def dirStringToVector_def queueDirection_def freshState_def)
  from i have "inPlay ?rnd freshState" by (rule play_init)
  then have p: "inPlay ?rnd ?s" using sp d by (rule play_input)
  note inst = queue_holds_unit_vectors [of ?rnd ?s]
  from inst k have a: "unitVector \<lparr>x = - 1, y = 0\<rparr>" by blast
  from inst have b: "unitVector (dirStringToVector ''up'')" by blast
  from inst p have "list_all unitVector (directionQueue ?s)" by blast
  then have c: "list_all unitVector [\<lparr>x = 1, y = 0\<rparr>, \<lparr>x = 0, y = - 1\<rparr>]" by simp
  from k a b sp d p c show ?thesis by (intro conjI)
qed

text \<open>
  Outside these inputs: a D-pad name other than the four, here center, gives the zero
  vector, which is enqueued like any direction, whereas the same word as a key is
  dropped; the second tick after it finds the next head on the head and ends the game.
\<close>

lemma dpad_unknown_name_enqueues_zero:
  "dirStringToVector ''center'' = \<lparr>x = 0, y = 0\<rparr> \<and> \<not> unitVector \<lparr>x = 0, y = 0\<rparr> \<and>
   dispatch (constDraws (3 / 4)) (DpadClick (Some ''center'')) freshState =
     Some (freshState\<lparr>directionQueue := [\<lparr>x = 1, y = 0\<rparr>, \<lparr>x = 0, y = 0\<rparr>]\<rparr>) \<and>
   reachable (constDraws (3 / 4)) (freshState\<lparr>directionQueue := [\<lparr>x = 1, y = 0\<rparr>, \<lparr>x = 0, y = 0\<rparr>]\<rparr>) \<and>
   dispatch (constDraws (3 / 4)) (KeyDown ''center'') freshState = Some freshState \<and>
   tick (constDraws (3 / 4)) (freshState\<lparr>directionQueue := [\<lparr>x = 1, y = 0\<rparr>, \<lparr>x = 0, y = 0\<rparr>]\<rparr>) =
     Some (Inr (freshState\<lparr>directionQueue := [\<lparr>x = 0, y = 0\<rparr>],
                  snake := [\<lparr>x = 11, y = 10\<rparr>, \<lparr>x = 10, y = 10\<rparr>, \<lparr>x = 9, y = 10\<rparr>]\<rparr>)) \<and>
   tick (constDraws (3 / 4))
        (freshState\<lparr>directionQueue := [\<lparr>x = 0, y = 0\<rparr>],
                    snake := [\<lparr>x = 11, y = 10\<rparr>, \<lparr>x = 10, y = 10\<rparr>, \<lparr>x = 9, y = 10\<rparr>]\<rparr>) =
     Some (Inr (freshState\<lparr>directionQueue := [\<lparr>x = 0, y = 0\<rparr>],
                  snake := [\<lparr>x = 11, y = 10\<rparr>, \<lparr>x = 10, y = 10\<rparr>, \<lparr>x = 9, y = 10\<rparr>],
                  isGameOver := True, loopId := None, timers := [],
                  stateTitle := ''Game Over'', stateSubtitle := ''Press Restart or Enter'',
                  overlayHidden := False\<rparr>))"
proof -
  let ?rnd = "constDraws (3 / 4)"
  have d: "dispatch ?rnd (DpadClick (Some ''center'')) freshState =
     Some (freshState\<lparr>directionQueue := [\<lparr>x = 1, y = 0\<rparr>, \<lparr>x = 0, y = 0\<rparr>]\<rparr>)"
    by (simp add: dispatch_def dirStringToVector_def queueDirection_def freshState_def)
  from reachable_freshState d
  have r: "reachable ?rnd (freshState\<lparr>directionQueue := [\<lparr>x = 1, y = 0\<rparr>, \<lparr>x = 0, y = 0\<rparr>]\<rparr>)"
    by (rule reach_input)
  have k: "dispatch ?rnd (KeyDown ''center'') freshState = Some freshState"
    by (simp add: dispatch_def keyToDir_def)
  have z: "dirStringToVector ''center'' = \<lparr>x = 0, y = 0\<rparr>" "\<not> unitVector \<lparr>x = 0, y = 0\<rparr>"
    by (simp_all add: dirStringToVector_def unitVector_def)
  have t1: "tick ?rnd (freshState\<lparr>directionQueue := [\<lparr>x = 1, y = 0\<rparr>, \<lparr>x = 0, y = 0\<rparr>]\<rparr>) =
     Some (Inr (freshState\<lparr>directionQueue := [\<lparr>x = 0, y = 0\<rparr>],
                  snake := [\<lparr>x = 11, y = 10\<rparr>, \<lparr>x = 10, y = 10\<rparr>, \<lparr>x = 9, y = 10\<rparr>]\<rparr>))"
    by (simp add: tick_def Let_def freshState_def GRID_SIZE_def positionsEqual_def)
  have t2: "tick ?rnd
        (freshState\<lparr>directionQueue := [\<lparr>x = 0, y = 0\<rparr>],
                    snake := [\<lparr>x = 11, y = 10\<rparr>, \<lparr>x = 10, y = 10\<rparr>, \<lparr>x = 9, y = 10\<rparr>]\<rparr>) =
     Some (Inr (freshState\<lparr>directionQueue := [\<lparr>x = 0, y = 0\<rparr>],
                  snake := [\<lparr>x = 11, y = 10\<rparr>, \<lparr>x = 10, y = 10\<rparr>, \<lparr>x = 9, y = 10\<rparr>],
                  isGameOver := True, loopId := None, timers := [],
                  stateTitle := ''Game Over'', stateSubtitle := ''Press Restart or Enter'',
                  overlayHidden := False\<rparr>))"
    by (simp add: tick_def Let_def freshState_def GRID_SIZE_def positionsEqual_def gameOver_def
          showOverlay_def updatePanel_def stopLoop_def clearInterval_def)
  from d r k z t1 t2 show ?thesis by (intro conjI)
qed

end
